theory Spec2Isabelle
  imports Complex_Main "HOL-Library.Multiset"
begin

section \<open>Data model\<close>

text \<open>
  The program is \<^verbatim>\<open>seatmap-browser.py\<close>. Its integers are Python's unbounded integers
  (\<open>int\<close>). A Python \<^verbatim>\<open>str\<close> is a sequence of Unicode code points and is modelled as the
  list of these code points, so that the length of a text and the characters that
  \<^verbatim>\<open>strip\<close> removes are those of the source.
\<close>

type_synonym pystr = "nat list"

text \<open>The exceptions that the modelled functions can raise.\<close>

datatype error = KeyError | ZeroDivisionError | IndexError

subsection \<open>The text constants of the source\<close>

text \<open>
  The Chinese numerals one to ten (U+4E00, U+4E8C, U+4E09, U+56DB, U+4E94, U+516D, U+4E03,
  U+516B, U+4E5D, U+5341), written as code points.
\<close>

definition yi :: pystr where "yi = [0x4E00]"
definition er :: pystr where "er = [0x4E8C]"
definition san :: pystr where "san = [0x4E09]"
definition si :: pystr where "si = [0x56DB]"
definition wu :: pystr where "wu = [0x4E94]"
definition liu :: pystr where "liu = [0x516D]"
definition qi :: pystr where "qi = [0x4E03]"
definition ba :: pystr where "ba = [0x516B]"
definition jiu :: pystr where "jiu = [0x4E5D]"
definition shi :: pystr where "shi = [0x5341]"

section \<open>The numeral formatter\<close>

text \<open>
  The dictionary \<^verbatim>\<open>mapping\<close> of \<^verbatim>\<open>num_to_chinese\<close>, with the keys 1 to 10.
\<close>

definition mapping :: "int \<rightharpoonup> pystr" where
  "mapping = [1 \<mapsto> yi, 2 \<mapsto> er, 3 \<mapsto> san, 4 \<mapsto> si, 5 \<mapsto> wu,
              6 \<mapsto> liu, 7 \<mapsto> qi, 8 \<mapsto> ba, 9 \<mapsto> jiu, 10 \<mapsto> shi]"

text \<open>\<^verbatim>\<open>mapping[k]\<close>: a key that is absent raises \<^verbatim>\<open>KeyError\<close>.\<close>

definition mapping_get :: "int \<Rightarrow> error + pystr" where
  "mapping_get k = (case mapping k of None \<Rightarrow> Inl KeyError | Some v \<Rightarrow> Inr v)"

text \<open>
  \<^verbatim>\<open>num_to_chinese\<close>. \<^verbatim>\<open>//\<close> and \<^verbatim>\<open>%\<close> are Python's floor division and its
  remainder, which are \<open>div\<close> and \<open>mod\<close> on \<open>int\<close>. The conditional expressions look a key
  up only in the branch that is taken.
\<close>

definition num_to_chinese :: "int \<Rightarrow> error + pystr" where
  "num_to_chinese num =
     (case mapping num of
        Some v \<Rightarrow> Inr v
      | None \<Rightarrow>
          (let tens = num div 10; ones = num mod 10 in
           case (if tens > 1
                 then (case mapping_get tens of Inl e \<Rightarrow> Inl e | Inr t \<Rightarrow> Inr (t @ shi))
                 else Inr shi) of
             Inl e \<Rightarrow> Inl e
           | Inr tens_part \<Rightarrow>
               (case (if ones \<noteq> 0 then mapping_get ones else Inr []) of
                  Inl e \<Rightarrow> Inl e
                | Inr ones_part \<Rightarrow> Inr (tens_part @ ones_part))))"

text \<open>
  The contract of the numeral formatter in the words of the specification, for comparison
  with the code: the values 1 to 10 are atomic tokens; 11 to 19 are the token of ten and
  the token of the ones; 20 to 99 are the token of the tens digit, the token of ten and
  the token of the ones, the last one left out when the ones are zero.
\<close>

definition atomic_token :: "int \<Rightarrow> pystr" where
  "atomic_token d =
     (if d = 1 then yi else if d = 2 then er else if d = 3 then san
      else if d = 4 then si else if d = 5 then wu else if d = 6 then liu
      else if d = 7 then qi else if d = 8 then ba else if d = 9 then jiu
      else shi)"

definition spec_numeral :: "int \<Rightarrow> pystr" where
  "spec_numeral n =
     (if n \<le> 10 then atomic_token n
      else if n \<le> 19 then shi @ (if n mod 10 = 0 then [] else atomic_token (n mod 10))
      else atomic_token (n div 10) @ shi
             @ (if n mod 10 = 0 then [] else atomic_token (n mod 10)))"

section \<open>The seat-fill pattern\<close>

text \<open>
  The \<^verbatim>\<open>while\<close> loop of \<^verbatim>\<open>compute_seating_pattern\<close>; the source has the same loop
  in the even and in the odd branch. The state is \<open>left\<close>, \<open>right\<close>, \<open>toggle\<close> and the list
  \<open>pattern\<close>, to which \<^verbatim>\<open>append\<close> adds at the end. A pass in which neither condition holds
  only flips \<open>toggle\<close>.
\<close>

function seat_loop :: "int \<Rightarrow> int \<Rightarrow> int \<Rightarrow> bool \<Rightarrow> int list \<Rightarrow> int list" where
  "seat_loop seats_per_row left right toggle pattern =
     (if left \<ge> 0 \<or> right < seats_per_row then
        (if toggle \<and> left \<ge> 0 then
           seat_loop seats_per_row (left - 1) right (\<not> toggle) (pattern @ [left])
         else if \<not> toggle \<and> right < seats_per_row then
           seat_loop seats_per_row left (right + 1) (\<not> toggle) (pattern @ [right])
         else seat_loop seats_per_row left right (\<not> toggle) pattern)
      else pattern)"
  by pat_completeness auto
termination
  by (relation "measure (\<lambda>(w, l, r, t, p).
        2 * (nat (l + 1) + nat (w - r))
        + (if t \<and> l < 0 then 1 else if \<not> t \<and> w \<le> r then 1 else 0))") auto

declare seat_loop.simps [simp del]

definition compute_seating_pattern :: "int \<Rightarrow> int list" where
  "compute_seating_pattern seats_per_row =
     (if seats_per_row mod 2 = 0 then
        (let best_index = seats_per_row div 2 - 1 in
         seat_loop seats_per_row best_index (best_index + 1) True [])
      else
        (let best_index = seats_per_row div 2 in
         seat_loop seats_per_row (best_index - 1) (best_index + 1) True [best_index]))"

section \<open>The column labels\<close>

text \<open>
  The decimal digits of a natural number, most significant first, as \<^verbatim>\<open>str\<close> prints
  them; 48 is the code point of the digit zero.
\<close>

fun digits10 :: "nat \<Rightarrow> pystr" where
  "digits10 n = (if n < 10 then [48 + n] else digits10 (n div 10) @ [48 + n mod 10])"

declare digits10.simps [simp del]

text \<open>
  The format \<^verbatim>\<open>{num:02d}\<close>: the decimal numeral, filled with zeros on the left up to
  the width two, and never cut; the sign of a negative number (code point 45) counts for
  the width.
\<close>

definition format_02d :: "int \<Rightarrow> pystr" where
  "format_02d num =
     (if num < 0 then 45 # digits10 (nat (- num))
      else (let ds = digits10 (nat num) in replicate (2 - length ds) 48 @ ds))"

text \<open>
  \<^verbatim>\<open>generate_column_labels\<close>. \<^verbatim>\<open>range(n)\<close> is the list \<open>[0..n - 1]\<close> of integers, empty
  when \<open>n \<le> 0\<close>; each loop appends one label per index.
\<close>

definition generate_column_labels :: "int \<Rightarrow> pystr list" where
  "generate_column_labels seats_per_row =
     (let (left_count, right_count) =
            (if seats_per_row mod 2 = 0 then (seats_per_row div 2, seats_per_row div 2)
             else (seats_per_row div 2 + 1, seats_per_row div 2))
      in map (\<lambda>i. format_02d (2 * left_count - (2 * i + 1))) [0..left_count - 1]
         @ map (\<lambda>i. format_02d (2 * (i + 1))) [0..right_count - 1])"

section \<open>The seating chart\<close>

subsection \<open>Attendees and placements\<close>

text \<open>
  A cell of the column \<^verbatim>\<open>NAME\<close> is a text, or the missing value \<^verbatim>\<open>NaN\<close> that the
  reader of the table puts in an empty cell. A row of the table is an attendee, and an
  entry of \<^verbatim>\<open>assignments\<close> has the two fields of the attendee and the two labels.
\<close>

datatype name_val = Missing | Text pystr

record attendee =
  PERSONID :: int
  NAME :: name_val

record assignment = attendee +
  ROW :: pystr
  SEAT :: pystr

text \<open>
  The table that is returned: its column headers and its rows of cells. The first cell of
  a row is the label of the row, a text; the other cells are names or the empty text.
\<close>

record seating_df =
  columns :: "pystr list"
  final_table :: "name_val list list"

subsection \<open>Lists and slices of Python\<close>

text \<open>
  \<^verbatim>\<open>xs[i]\<close> and \<^verbatim>\<open>xs[i] = v\<close> for an integer index: a negative index counts from
  the end, and an index outside the list raises \<^verbatim>\<open>IndexError\<close>.
\<close>

definition py_index :: "nat \<Rightarrow> int \<Rightarrow> error + nat" where
  "py_index len i =
     (if 0 \<le> i \<and> i < int len then Inr (nat i)
      else if - int len \<le> i \<and> i < 0 then Inr (nat (int len + i))
      else Inl IndexError)"

definition list_get :: "'a list \<Rightarrow> int \<Rightarrow> error + 'a" where
  "list_get xs i =
     (case py_index (length xs) i of Inl e \<Rightarrow> Inl e | Inr k \<Rightarrow> Inr (xs ! k))"

definition list_set :: "'a list \<Rightarrow> int \<Rightarrow> 'a \<Rightarrow> error + 'a list" where
  "list_set xs i v =
     (case py_index (length xs) i of Inl e \<Rightarrow> Inl e | Inr k \<Rightarrow> Inr (xs[k := v]))"

text \<open>
  The slice \<^verbatim>\<open>iloc[start:stop]\<close>: a negative bound counts from the end, and both bounds
  are cut to the length of the table.
\<close>

definition slice_index :: "nat \<Rightarrow> int \<Rightarrow> nat" where
  "slice_index n i = (if i < 0 then nat (max 0 (int n + i)) else min n (nat i))"

definition iloc :: "'a list \<Rightarrow> int \<Rightarrow> int \<Rightarrow> 'a list" where
  "iloc xs start stop =
     (let a = slice_index (length xs) start; b = slice_index (length xs) stop
      in take (b - a) (drop a xs))"

text \<open>A list comprehension whose element expression can raise.\<close>

fun collect :: "('a \<Rightarrow> error + 'b) \<Rightarrow> 'a list \<Rightarrow> error + 'b list" where
  "collect f [] = Inr []"
| "collect f (x # xs) =
     (case f x of
        Inl e \<Rightarrow> Inl e
      | Inr y \<Rightarrow> (case collect f xs of Inl e \<Rightarrow> Inl e | Inr ys \<Rightarrow> Inr (y # ys)))"

text \<open>\<^verbatim>\<open>sep.join(lines)\<close>.\<close>

fun join :: "pystr \<Rightarrow> pystr list \<Rightarrow> pystr" where
  "join sep [] = []"
| "join sep [x] = x"
| "join sep (x # y # ys) = x @ sep @ join sep (y # ys)"

subsection \<open>Texts of the chart\<close>

text \<open>
  The characters U+7B2C and U+6392 around the numeral of a row, the header U+6392 U+53F7
  of the first column, the reserved-seat text U+9884 U+7559 U+7A7A U+4F4D, and the pieces
  of a line of the explanation.
\<close>

definition di :: pystr where "di = [0x7B2C]"
definition pai :: pystr where "pai = [0x6392]"
definition paihao :: pystr where "paihao = [0x6392, 0x53F7]"
definition reserved_seat :: pystr where "reserved_seat = [0x9884, 0x7559, 0x7A7A, 0x4F4D]"
definition zai :: pystr where "zai = [0x5728]"
definition zuowei :: pystr where "zuowei = [0x5EA7, 0x4F4D, 0x3002]"
definition nan :: pystr where "nan = [110, 97, 110]"

text \<open>The label of a row: \<^verbatim>\<open>num_to_chinese\<close> between the two characters.\<close>

definition row_label_of :: "int \<Rightarrow> error + pystr" where
  "row_label_of n =
     (case num_to_chinese n of Inl e \<Rightarrow> Inl e | Inr s \<Rightarrow> Inr (di @ s @ pai))"

subsection \<open>Missing and blank names\<close>

text \<open>
  \<^verbatim>\<open>pd.isna\<close> and \<^verbatim>\<open>str\<close> on a cell: the missing value prints as the text nan.
\<close>

fun pd_isna :: "name_val \<Rightarrow> bool" where
  "pd_isna Missing = True"
| "pd_isna (Text s) = False"

fun py_str :: "name_val \<Rightarrow> pystr" where
  "py_str Missing = nan"
| "py_str (Text s) = s"

text \<open>
  The characters that \<^verbatim>\<open>str.strip\<close> removes are those for which \<^verbatim>\<open>str.isspace\<close>
  holds: U+0009 to U+000D, U+001C to U+0020, U+0085, U+00A0, U+1680, U+2000 to U+200A,
  U+2028, U+2029, U+202F, U+205F and U+3000.
\<close>

definition py_isspace :: "nat \<Rightarrow> bool" where
  "py_isspace c \<longleftrightarrow>
     (0x09 \<le> c \<and> c \<le> 0x0D) \<or> (0x1C \<le> c \<and> c \<le> 0x20) \<or> c = 0x85 \<or> c = 0xA0
     \<or> c = 0x1680 \<or> (0x2000 \<le> c \<and> c \<le> 0x200A) \<or> c = 0x2028 \<or> c = 0x2029
     \<or> c = 0x202F \<or> c = 0x205F \<or> c = 0x3000"

definition py_strip :: "pystr \<Rightarrow> pystr" where
  "py_strip s = rev (dropWhile py_isspace (rev (dropWhile py_isspace s)))"

text \<open>
  \<^verbatim>\<open>str.lower\<close> on the letters A to Z. The other code points are left as they are: the
  only use of the result is the comparison with the text nan, and no code point outside
  A to Z has a lower case that holds the letter n or the letter a.
\<close>

definition py_lower :: "pystr \<Rightarrow> pystr" where
  "py_lower s = map (\<lambda>c. if 65 \<le> c \<and> c \<le> 90 then c + 32 else c) s"

text \<open>The condition under which a line shows the reserved-seat text.\<close>

definition is_reserved :: "name_val \<Rightarrow> bool" where
  "is_reserved name_val \<longleftrightarrow>
     pd_isna name_val \<or> py_lower (py_strip (py_str name_val)) = nan
     \<or> py_strip (py_str name_val) = []"

text \<open>One pass of the loop over \<^verbatim>\<open>assignments\<close> that builds a line.\<close>

definition explanation_line :: "assignment \<Rightarrow> pystr" where
  "explanation_line item =
     (let name_val = NAME item;
          name_val = (if is_reserved name_val then Text reserved_seat else name_val)
      in py_str name_val @ [32] @ zai @ ROW item @ di @ SEAT item @ zuowei)"

subsection \<open>The assignment of seats\<close>

text \<open>
  The inner loop over \<^verbatim>\<open>enumerate(persons.iterrows())\<close>: \<open>i\<close> counts the persons of the
  row, and the state is the list \<open>row_seats\<close> and the list \<open>assignments\<close>.
\<close>

fun place_persons ::
  "int list \<Rightarrow> pystr list \<Rightarrow> int \<Rightarrow> nat \<Rightarrow> attendee list
     \<Rightarrow> name_val list \<times> assignment list \<Rightarrow> error + (name_val list \<times> assignment list)"
where
  "place_persons seating_pattern col_labels row i [] st = Inr st"
| "place_persons seating_pattern col_labels row i (person # persons) (row_seats, assignments) =
     (if i < length seating_pattern then
        (let seat_index = seating_pattern ! i in
         case list_set row_seats seat_index (NAME person) of
           Inl e \<Rightarrow> Inl e
         | Inr row_seats' \<Rightarrow>
             (case row_label_of (row + 1) of
                Inl e \<Rightarrow> Inl e
              | Inr row_label \<Rightarrow>
                  (case list_get col_labels seat_index of
                     Inl e \<Rightarrow> Inl e
                   | Inr seat_label \<Rightarrow>
                       place_persons seating_pattern col_labels row (Suc i) persons
                         (row_seats',
                          assignments @ [\<lparr>PERSONID = PERSONID person, NAME = NAME person,
                                           ROW = row_label, SEAT = seat_label\<rparr>]))))
      else place_persons seating_pattern col_labels row (Suc i) persons
             (row_seats, assignments))"

text \<open>
  The outer loop over \<^verbatim>\<open>range(num_rows)\<close>; the state is \<open>seating_chart\<close> and
  \<open>assignments\<close>.
\<close>

fun fill_rows ::
  "attendee list \<Rightarrow> int \<Rightarrow> int list \<Rightarrow> pystr list \<Rightarrow> int list
     \<Rightarrow> name_val list list \<times> assignment list
     \<Rightarrow> error + (name_val list list \<times> assignment list)"
where
  "fill_rows df_sorted seats_per_row seating_pattern col_labels [] st = Inr st"
| "fill_rows df_sorted seats_per_row seating_pattern col_labels (row # rows)
       (seating_chart, assignments) =
     (let row_seats = replicate (nat seats_per_row) (Text []);
          start_idx = row * seats_per_row;
          end_idx = min (start_idx + seats_per_row) (int (length df_sorted));
          persons = iloc df_sorted start_idx end_idx
      in case place_persons seating_pattern col_labels row 0 persons (row_seats, assignments) of
           Inl e \<Rightarrow> Inl e
         | Inr (row_seats', assignments') \<Rightarrow>
             fill_rows df_sorted seats_per_row seating_pattern col_labels rows
               (seating_chart @ [row_seats'], assignments'))"

text \<open>
  \<^verbatim>\<open>math.ceil(total_people / seats_per_row)\<close>. The quotient is a float; for a table that
  a spreadsheet can hold (fewer than \<open>2 ^ 53\<close> rows) the float quotient rounds to the exact
  ceiling, which is \<open>- (- a div b)\<close> with the floor division of \<open>int\<close>. A zero divisor
  raises \<^verbatim>\<open>ZeroDivisionError\<close>.
\<close>

definition ceil_div :: "int \<Rightarrow> int \<Rightarrow> error + int" where
  "ceil_div a b = (if b = 0 then Inl ZeroDivisionError else Inr (- ((- a) div b)))"

text \<open>
  \<^verbatim>\<open>df.sort_values(by='PERSONID', ascending=True)\<close> is a function of the library, called
  with its default algorithm, which is not stable: it returns the rows of the table in
  ascending order of \<^verbatim>\<open>PERSONID\<close>, and the order of rows with the same identifier is not
  fixed. The model takes this function as the parameter \<open>sort_values\<close>, and the theorems
  assume of it only what follows: for every table, the result has the rows of the table,
  each as often as the table has it, and is ascending in \<^verbatim>\<open>PERSONID\<close>.
\<close>

definition sorts_by_PERSONID :: "(attendee list \<Rightarrow> attendee list) \<Rightarrow> bool" where
  "sorts_by_PERSONID sort_values \<longleftrightarrow>
     (\<forall>df. mset (sort_values df) = mset df \<and> sorted (map PERSONID (sort_values df)))"

text \<open>
  The first part of \<^verbatim>\<open>generate_seating_chart\<close>, up to the end of the loop over the
  rows: it gives \<open>num_rows\<close>, \<open>seating_chart\<close> and \<open>assignments\<close>. The argument \<open>df\<close> is the
  table that \<^verbatim>\<open>pd.read_excel\<close> has read.
\<close>

definition assign_seats ::
  "(attendee list \<Rightarrow> attendee list) \<Rightarrow> attendee list \<Rightarrow> int
     \<Rightarrow> error + (int \<times> name_val list list \<times> assignment list)" where
  "assign_seats sort_values df seats_per_row =
     (let df_sorted = sort_values df;
          total_people = int (length df_sorted)
      in case ceil_div total_people seats_per_row of
           Inl e \<Rightarrow> Inl e
         | Inr num_rows \<Rightarrow>
             (let seating_pattern = compute_seating_pattern seats_per_row;
                  col_labels = generate_column_labels seats_per_row
              in case fill_rows df_sorted seats_per_row seating_pattern col_labels
                        [0..num_rows - 1] ([], []) of
                   Inl e \<Rightarrow> Inl e
                 | Inr (seating_chart, assignments) \<Rightarrow>
                     Inr (num_rows, seating_chart, assignments)))"

text \<open>
  \<^verbatim>\<open>generate_seating_chart\<close>: the rows are reversed for the display, each one gets its
  label in front, and the explanation has one line per entry of \<open>assignments\<close>, sorted by
  \<^verbatim>\<open>PERSONID\<close> with \<^verbatim>\<open>list.sort\<close>, which is stable and is \<open>sort_key\<close>.
\<close>

definition generate_seating_chart ::
  "(attendee list \<Rightarrow> attendee list) \<Rightarrow> attendee list \<Rightarrow> int
     \<Rightarrow> error + (seating_df \<times> pystr)" where
  "generate_seating_chart sort_values df seats_per_row =
     (case assign_seats sort_values df seats_per_row of
        Inl e \<Rightarrow> Inl e
      | Inr (num_rows, seating_chart, assignments) \<Rightarrow>
          (let seating_chart_final = rev seating_chart in
           case collect (\<lambda>i. row_label_of (i + 1)) [0..num_rows - 1] of
             Inl e \<Rightarrow> Inl e
           | Inr row_labels \<Rightarrow>
               (let row_labels_final = rev row_labels;
                    table = map (\<lambda>(label, row). Text label # row)
                                (zip row_labels_final seating_chart_final);
                    cols = paihao # generate_column_labels seats_per_row;
                    df_out = \<lparr>columns = cols, final_table = table\<rparr>;
                    explanation_lines =
                      map explanation_line (sort_key PERSONID assignments);
                    explanation_text = join [10] explanation_lines
                in Inr (df_out, explanation_text))))"

section \<open>Closed forms of the two loops\<close>

text \<open>The label of a row when the formatter returns one, and the empty text otherwise.\<close>

definition the_row_label :: "int \<Rightarrow> pystr" where
  "the_row_label n = (case row_label_of n of Inl e \<Rightarrow> [] | Inr s \<Rightarrow> s)"

text \<open>
  The cells of a row after the inner loop has placed the persons \<open>ps\<close>, the first of them
  at the position \<open>i\<close> of the pattern, and the entries that it has appended.
\<close>

definition place_cells :: "int list \<Rightarrow> nat \<Rightarrow> attendee list \<Rightarrow> name_val list \<Rightarrow> name_val list" where
  "place_cells pat i ps rs
     = fold (\<lambda>(j, p) r. r[nat (pat ! j) := NAME p]) (zip [i..<i + length ps] ps) rs"

definition placements ::
  "int list \<Rightarrow> pystr list \<Rightarrow> pystr \<Rightarrow> nat \<Rightarrow> attendee list \<Rightarrow> assignment list" where
  "placements pat labs lbl i ps
     = map (\<lambda>(j, p). \<lparr>PERSONID = PERSONID p, NAME = NAME p, ROW = lbl,
                       SEAT = labs ! nat (pat ! j)\<rparr>)
         (zip [i..<i + length ps] ps)"

text \<open>The persons of the logical row \<open>r\<close>: the slice of the sorted table.\<close>

definition row_persons :: "attendee list \<Rightarrow> nat \<Rightarrow> nat \<Rightarrow> attendee list" where
  "row_persons xs w r = take w (drop (r * w) xs)"

text \<open>An example attendee: the identifier \<open>i\<close> with the numeral of \<open>i\<close> as its name.\<close>

definition attendee_no :: "int \<Rightarrow> attendee" where
  "attendee_no i = \<lparr>PERSONID = i, NAME = Text (format_02d i)\<rparr>"

text \<open>
  The entry of the attendee at the index \<open>j\<close> of the sorted table, and the cells of the
  logical row \<open>r\<close>.
\<close>

definition placement_at :: "attendee list \<Rightarrow> int \<Rightarrow> nat \<Rightarrow> assignment" where
  "placement_at S W j
     = \<lparr>PERSONID = PERSONID (S ! j), NAME = NAME (S ! j),
        ROW = the_row_label (int (j div nat W) + 1),
        SEAT = generate_column_labels W ! nat (compute_seating_pattern W ! (j mod nat W))\<rparr>"

definition cells_at :: "attendee list \<Rightarrow> int \<Rightarrow> nat \<Rightarrow> name_val list" where
  "cells_at S W r
     = place_cells (compute_seating_pattern W) 0 (row_persons S (nat W) r)
         (replicate (nat W) (Text []))"

section \<open>Properties of the numeral formatter\<close>

lemma mapping_digit:
  "1 \<le> d \<Longrightarrow> d \<le> 10 \<Longrightarrow> mapping d = Some (atomic_token d)"
proof -
  assume "1 \<le> d" "d \<le> 10"
  then have "d = 1 \<or> d = 2 \<or> d = 3 \<or> d = 4 \<or> d = 5 \<or> d = 6 \<or> d = 7 \<or> d = 8
      \<or> d = 9 \<or> d = 10"
    by arith
  then show ?thesis
    by (elim disjE) (simp_all add: mapping_def atomic_token_def)
qed

lemma mapping_outside: "d < 1 \<or> 10 < d \<Longrightarrow> mapping d = None"
  by (auto simp add: mapping_def)

lemma mapping_get_digit: "1 \<le> d \<Longrightarrow> d \<le> 10 \<Longrightarrow> mapping_get d = Inr (atomic_token d)"
  by (simp add: mapping_get_def mapping_digit)

lemma mapping_get_outside: "d < 1 \<or> 10 < d \<Longrightarrow> mapping_get d = Inl KeyError"
  by (simp add: mapping_get_def mapping_outside)

text \<open>
  Claim C5. For every \<open>n\<close> from 1 to 99 the formatter returns, without an error, the text
  of the contract: the atomic token for 1 to 10, the token of ten and the token of the
  ones for 11 to 19, and the token of the tens digit, the token of ten and the token of
  the ones (left out when zero) for 20 to 99.
\<close>

theorem num_to_chinese_contract:
  assumes "1 \<le> n" and "n \<le> 99"
  shows "num_to_chinese n = Inr (spec_numeral n)"
proof (cases "n \<le> 10")
  case True
  with assms show ?thesis
    by (simp add: num_to_chinese_def spec_numeral_def mapping_digit)
next
  case False
  then have none: "mapping n = None"
    by (simp add: mapping_outside)
  have ones: "n mod 10 \<noteq> 0 \<Longrightarrow> mapping_get (n mod 10) = Inr (atomic_token (n mod 10))"
    by (rule mapping_get_digit) (use pos_mod_sign [of 10 n] pos_mod_bound [of 10 n] in arith)+
  show ?thesis
  proof (cases "n \<le> 19")
    case True
    with False have "n div 10 = 1" by arith
    with True False none ones show ?thesis
      by (simp add: num_to_chinese_def spec_numeral_def)
  next
    case False
    with assms have "2 \<le> n div 10" "n div 10 \<le> 9" by arith+
    then have "mapping_get (n div 10) = Inr (atomic_token (n div 10))" "1 < n div 10"
      by (simp_all add: mapping_get_digit)
    with False none ones show ?thesis
      by (simp add: num_to_chinese_def spec_numeral_def)
  qed
qed

theorem num_to_chinese_contract_witness:
  "num_to_chinese 1 = Inr yi \<and> num_to_chinese 10 = Inr shi
   \<and> num_to_chinese 17 = Inr (shi @ qi) \<and> num_to_chinese 40 = Inr (si @ shi)
   \<and> num_to_chinese 99 = Inr (jiu @ shi @ jiu)"
  using num_to_chinese_contract [of 1] num_to_chinese_contract [of 10]
    num_to_chinese_contract [of 17] num_to_chinese_contract [of 40]
    num_to_chinese_contract [of 99]
  by (simp add: spec_numeral_def atomic_token_def)

text \<open>
  Claim C4, as the code has it. The formatter has no check of its argument. From 110 on
  the tens are no key of the dictionary and the lookup raises \<^verbatim>\<open>KeyError\<close>. From 100 to
  109 the tens are the key 10, and for \<open>n \<le> 0\<close> the tens are not above 1: in both ranges
  the formatter returns a text and raises nothing.
\<close>

theorem num_to_chinese_outside:
  "(110 \<le> n \<longrightarrow> num_to_chinese n = Inl KeyError)
   \<and> (100 \<le> n \<and> n \<le> 109 \<longrightarrow>
        num_to_chinese n
          = Inr (shi @ shi @ (if n mod 10 = 0 then [] else atomic_token (n mod 10))))
   \<and> (n \<le> 0 \<longrightarrow>
        num_to_chinese n = Inr (shi @ (if n mod 10 = 0 then [] else atomic_token (n mod 10))))"
proof -
  have ones: "n mod 10 \<noteq> 0 \<Longrightarrow> mapping_get (n mod 10) = Inr (atomic_token (n mod 10))"
    by (rule mapping_get_digit) (use pos_mod_sign [of 10 n] pos_mod_bound [of 10 n] in arith)+
  have big: "num_to_chinese n = Inl KeyError" if "110 \<le> n"
  proof -
    from that have "10 < n div 10" by arith
    then have "mapping_get (n div 10) = Inl KeyError" "1 < n div 10"
      by (simp_all add: mapping_get_outside)
    moreover from that have "mapping n = None"
      by (simp add: mapping_outside)
    ultimately show ?thesis
      by (simp add: num_to_chinese_def)
  qed
  have mid: "num_to_chinese n
      = Inr (shi @ shi @ (if n mod 10 = 0 then [] else atomic_token (n mod 10)))"
    if "100 \<le> n" "n \<le> 109"
  proof -
    from that have "n div 10 = 10" by arith
    moreover have "mapping_get 10 = Inr shi"
      by (simp add: mapping_get_digit atomic_token_def)
    moreover from that have "mapping n = None"
      by (simp add: mapping_outside)
    ultimately show ?thesis using ones
      by (simp add: num_to_chinese_def)
  qed
  have low: "num_to_chinese n
      = Inr (shi @ (if n mod 10 = 0 then [] else atomic_token (n mod 10)))"
    if "n \<le> 0"
  proof -
    from that have "n div 10 \<le> 0" by arith
    moreover from that have "mapping n = None"
      by (simp add: mapping_outside)
    ultimately show ?thesis using ones
      by (simp add: num_to_chinese_def)
  qed
  from big mid low show ?thesis by blast
qed

theorem num_to_chinese_outside_witness:
  "num_to_chinese 110 = Inl KeyError \<and> num_to_chinese 105 = Inr (shi @ shi @ wu)
   \<and> num_to_chinese (- 3) = Inr (shi @ qi)"
  using num_to_chinese_outside [of 110] num_to_chinese_outside [of 105]
    num_to_chinese_outside [of "- 3"]
  by (simp add: atomic_token_def)

text \<open>
  At 0 and at 100 the formatter returns a text, so that it does not fail for every
  \<open>n \<le> 0\<close> and every \<open>n \<ge> 100\<close>.
\<close>

theorem num_to_chinese_no_error_counterexample:
  "num_to_chinese 0 = Inr shi \<and> num_to_chinese 100 = Inr (shi @ shi)"
  by (simp add: num_to_chinese_def mapping_def mapping_get_def)

section \<open>Properties of the seat-fill pattern\<close>

lemma mset_seat_loop:
  "mset (seat_loop w l r t p) = mset p + mset [0..l] + mset [r..w - 1]"
proof (induction w l r t p rule: seat_loop.induct)
  case (1 w l r t p)
  show ?case
  proof (cases "0 \<le> l \<or> r < w")
    case False
    then show ?thesis
      by (subst seat_loop.simps) simp
  next
    case run: True
    show ?thesis
    proof (cases "t \<and> 0 \<le> l")
      case True
      then have "[0..l] = [0..l - 1] @ [l]"
        by (simp add: upto_rec2)
      with True run "1.IH"(1) show ?thesis
        by (subst seat_loop.simps) simp
    next
      case nl: False
      show ?thesis
      proof (cases "\<not> t \<and> r < w")
        case True
        then have "[r..w - 1] = r # [r + 1..w - 1]"
          by (simp add: upto_rec1)
        with True nl run "1.IH"(2) show ?thesis
          by (subst seat_loop.simps) simp
      next
        case False
        with nl run "1.IH"(3) show ?thesis
          by (subst seat_loop.simps) auto
      qed
    qed
  qed
qed

lemma mset_compute_seating_pattern:
  "mset (compute_seating_pattern w) = mset [0..w - 1]" if "1 \<le> w"
proof (cases "w mod 2 = 0")
  case True
  from that True have "[0..w - 1] = [0..w div 2 - 1] @ [w div 2..w - 1]"
    by (intro upto_split1) arith+
  with True show ?thesis
    by (simp add: compute_seating_pattern_def mset_seat_loop Let_def)
next
  case False
  from that have "[0..w - 1] = [0..w div 2 - 1] @ w div 2 # [w div 2 + 1..w - 1]"
    by (intro upto_split3) arith+
  with False show ?thesis
    by (simp add: compute_seating_pattern_def mset_seat_loop Let_def)
qed

lemma length_compute_seating_pattern:
  "1 \<le> w \<Longrightarrow> length (compute_seating_pattern w) = nat w"
  using mset_eq_length [OF mset_compute_seating_pattern, of w] by simp

lemma set_compute_seating_pattern:
  "1 \<le> w \<Longrightarrow> set (compute_seating_pattern w) = {0..w - 1}"
  using mset_eq_setD [OF mset_compute_seating_pattern, of w] by simp

lemma distinct_compute_seating_pattern:
  "1 \<le> w \<Longrightarrow> distinct (compute_seating_pattern w)"
  using mset_eq_imp_distinct_iff [OF mset_compute_seating_pattern, of w] by simp

text \<open>
  Claim C1. For every \<open>w \<ge> 1\<close> the fill pattern has the length \<open>w\<close>, its elements are
  exactly the seat positions \<open>0\<close> to \<open>w - 1\<close>, each one once, and sorting it gives the list
  \<open>[0, 1, ..., w - 1]\<close>.
\<close>

theorem compute_seating_pattern_permutation:
  assumes "1 \<le> w"
  shows "length (compute_seating_pattern w) = nat w
    \<and> set (compute_seating_pattern w) = {0..w - 1}
    \<and> distinct (compute_seating_pattern w)
    \<and> sort (compute_seating_pattern w) = [0..w - 1]"
proof -
  have "mset (compute_seating_pattern w) = mset [0..w - 1]"
    using assms by (rule mset_compute_seating_pattern)
  then have "sort (compute_seating_pattern w) = [0..w - 1]"
    by (metis properties_for_sort sorted_upto)
  with assms show ?thesis
    by (simp add: length_compute_seating_pattern set_compute_seating_pattern
        distinct_compute_seating_pattern)
qed

theorem compute_seating_pattern_permutation_witness:
  "length (compute_seating_pattern 7) = 7
    \<and> set (compute_seating_pattern 7) = {0..6}
    \<and> distinct (compute_seating_pattern 7)
    \<and> sort (compute_seating_pattern 7) = [0, 1, 2, 3, 4, 5, 6]"
  using compute_seating_pattern_permutation [of 7]
  by (simp add: upto_rec1)

section \<open>A chart of twelve attendees\<close>

lemma compute_seating_pattern_10: "compute_seating_pattern 10 = [4, 5, 3, 6, 2, 7, 1, 8, 0, 9]"
  by code_simp

lemma generate_column_labels_10: "generate_column_labels 10 = [[48, 57], [48, 55], [48, 53], [48, 51], [48, 49], [48, 50], [48, 52], [48, 54], [48, 56], [49, 48]]"
  by code_simp

lemma row_label_of_1_2: "row_label_of 1 = Inr (di @ yi @ pai)" "row_label_of 2 = Inr (di @ er @ pai)"
  by (simp_all add: row_label_of_def num_to_chinese_def mapping_def)

lemma sorts_by_PERSONID_sort_key: "sorts_by_PERSONID (sort_key PERSONID)"
  by (simp add: sorts_by_PERSONID_def)

lemma length_sort_values:
  "sorts_by_PERSONID sort_values \<Longrightarrow> length (sort_values df) = length df"
  unfolding sorts_by_PERSONID_def by (metis mset_eq_length)

lemma sorted_sort_values:
  "sorts_by_PERSONID sort_values \<Longrightarrow> sorted (map PERSONID (sort_values df))"
  by (simp add: sorts_by_PERSONID_def)

lemma mset_sort_values:
  "sorts_by_PERSONID sort_values \<Longrightarrow> mset (sort_values df) = mset df"
  by (simp add: sorts_by_PERSONID_def)

lemma sort_values_unique:
  assumes "sorts_by_PERSONID sort_values" and "distinct (map PERSONID df)"
  shows "sort_values df = sort_key PERSONID df"
proof -
  from assms(1) have "mset df = mset (sort_values df)"
    by (simp add: mset_sort_values)
  moreover from assms(2) have "inj_on PERSONID (set df)"
    by (simp add: distinct_map)
  moreover from assms(1) have "sorted (map PERSONID (sort_values df))"
    by (rule sorted_sort_values)
  ultimately have "sort_key PERSONID df = sort_values df"
    by (rule sort_key_inj_key_eq)
  then show ?thesis by simp
qed

text \<open>
  Claim C2. With ten seats in a row the fill pattern is \<open>[4, 5, 3, 6, 2, 7, 1, 8, 0, 9]\<close>.
  For twelve attendees with the identifiers 1 to 12 and any names \<open>nm 1\<close> to \<open>nm 12\<close>,
  and whatever sorting function of the kind described the library has, there are two
  logical rows: the first holds the first ten attendees on all the positions 0 to 9, the
  second holds the attendees 11 and 12 on the positions 4 and 5 and the empty text on the
  eight other positions. In the table that is returned the second row, with its label,
  stands first and the first row stands last.
\<close>

theorem scenario_A:
  assumes "sorts_by_PERSONID sort_values"
  shows "compute_seating_pattern 10 = [4, 5, 3, 6, 2, 7, 1, 8, 0, 9]
   \<and> map_sum id (\<lambda>(num_rows, seating_chart, assignments). (num_rows, seating_chart))
        (assign_seats sort_values (map (\<lambda>i. \<lparr>PERSONID = i, NAME = nm i\<rparr>) [1..12]) 10)
      = Inr (2, [[nm 9, nm 7, nm 5, nm 3, nm 1, nm 2, nm 4, nm 6, nm 8, nm 10],
                 [Text [], Text [], Text [], Text [], nm 11, nm 12,
                  Text [], Text [], Text [], Text []]])
   \<and> map_sum id (\<lambda>(df_out, explanation_text). final_table df_out)
        (generate_seating_chart sort_values
           (map (\<lambda>i. \<lparr>PERSONID = i, NAME = nm i\<rparr>) [1..12]) 10)
      = Inr [[Text (di @ er @ pai), Text [], Text [], Text [], Text [], nm 11, nm 12,
              Text [], Text [], Text [], Text []],
             [Text (di @ yi @ pai), nm 9, nm 7, nm 5, nm 3, nm 1, nm 2, nm 4, nm 6, nm 8,
              nm 10]]"
proof -
  let ?df = "map (\<lambda>i. \<lparr>PERSONID = i, NAME = nm i\<rparr>) [1..12]"
  have "distinct (map PERSONID ?df)"
    by (simp add: o_def)
  with assms have "sort_values ?df = sort_key PERSONID ?df"
    by (rule sort_values_unique)
  also have "\<dots> = ?df"
    by (rule sort_key_id_if_sorted) (simp add: o_def)
  finally have sorted: "sort_values ?df = ?df" .
  have a: "assign_seats sort_values ?df 10
    = Inr (2, [[nm 9, nm 7, nm 5, nm 3, nm 1, nm 2, nm 4, nm 6, nm 8, nm 10],
                 [Text [], Text [], Text [], Text [], nm 11, nm 12,
                  Text [], Text [], Text [], Text []]],
           map (\<lambda>(i, r, s). \<lparr>PERSONID = i, NAME = nm i, ROW = di @ r @ pai, SEAT = s\<rparr>)
             [(1, yi, [48, 49]), (2, yi, [48, 50]), (3, yi, [48, 51]), (4, yi, [48, 52]),
              (5, yi, [48, 53]), (6, yi, [48, 54]), (7, yi, [48, 55]), (8, yi, [48, 56]),
              (9, yi, [48, 57]), (10, yi, [49, 48]), (11, er, [48, 49]), (12, er, [48, 50])])"
    unfolding assign_seats_def sorted
    by (simp add: compute_seating_pattern_10 generate_column_labels_10 row_label_of_1_2
        ceil_div_def upto_rec1 iloc_def slice_index_def list_set_def list_get_def py_index_def
        eval_nat_numeral)
  show ?thesis
    unfolding generate_seating_chart_def a
    by (simp add: compute_seating_pattern_10 row_label_of_1_2 upto_rec1)
qed

theorem scenario_A_witness:
  "compute_seating_pattern 10 = [4, 5, 3, 6, 2, 7, 1, 8, 0, 9]
   \<and> map_sum id (\<lambda>(num_rows, seating_chart, assignments). (num_rows, seating_chart))
        (assign_seats (sort_key PERSONID) (map attendee_no [1..12]) 10)
      = Inr (2, [map (\<lambda>i. Text (format_02d i)) [9, 7, 5, 3, 1, 2, 4, 6, 8, 10],
                 [Text [], Text [], Text [], Text [], Text (format_02d 11),
                  Text (format_02d 12), Text [], Text [], Text [], Text []]])
   \<and> map_sum id (\<lambda>(df_out, explanation_text). final_table df_out)
        (generate_seating_chart (sort_key PERSONID) (map attendee_no [1..12]) 10)
      = Inr [[Text (di @ er @ pai), Text [], Text [], Text [], Text [],
              Text (format_02d 11), Text (format_02d 12), Text [], Text [], Text [], Text []],
             Text (di @ yi @ pai)
               # map (\<lambda>i. Text (format_02d i)) [9, 7, 5, 3, 1, 2, 4, 6, 8, 10]]"
proof -
  have "attendee_no = (\<lambda>i. \<lparr>PERSONID = i, NAME = Text (format_02d i)\<rparr>)"
    by (rule ext) (simp add: attendee_no_def)
  with scenario_A [OF sorts_by_PERSONID_sort_key, of "\<lambda>i. Text (format_02d i)"]
  show ?thesis
    by simp
qed

section \<open>Properties of the column labels\<close>

lemma length_digits10: "0 < length (digits10 n)"
  by (subst digits10.simps) simp

lemma format_02d_two_digits:
  assumes "0 \<le> n" and "n \<le> 99"
  shows "format_02d n = [48 + nat n div 10, 48 + nat n mod 10]"
proof (cases "nat n < 10")
  case True
  with assms show ?thesis
    by (simp add: format_02d_def digits10.simps [of "nat n"])
next
  case False
  with assms have "nat n div 10 < 10" by arith
  then have "digits10 (nat n div 10) = [48 + nat n div 10]"
    by (subst digits10.simps) simp
  with False assms show ?thesis
    by (simp add: format_02d_def digits10.simps [of "nat n"])
qed

lemma odd_labels:
  "map (\<lambda>i. f (2 * c - (2 * i + 1))) [0..c - 1] = map f (rev (map (\<lambda>i. 2 * i - 1) [1..c]))"
proof (rule nth_equalityI)
  show "length (map (\<lambda>i. f (2 * c - (2 * i + 1))) [0..c - 1])
      = length (map f (rev (map (\<lambda>i. 2 * i - 1) [1..c])))"
    by simp
next
  fix k
  assume "k < length (map (\<lambda>i. f (2 * c - (2 * i + 1))) [0..c - 1])"
  then have k: "k < nat c" by simp
  then have "0 < c" by simp
  with k have "rev (map (\<lambda>i. 2 * i - 1) [1..c]) ! k = 2 * (1 + int (nat c - Suc k)) - 1"
    by (simp add: rev_nth)
  also from k have "\<dots> = 2 * c - (2 * int k + 1)" by (simp add: of_nat_diff)
  finally show "map (\<lambda>i. f (2 * c - (2 * i + 1))) [0..c - 1] ! k
      = map f (rev (map (\<lambda>i. 2 * i - 1) [1..c])) ! k"
    using k by simp
qed

lemma even_labels: "map (\<lambda>i. f (2 * (i + 1))) [0..c - 1] = map f (map (\<lambda>i. 2 * i) [1..c])"
  by (rule nth_equalityI) (simp_all add: algebra_simps)

lemma generate_column_labels_numbers:
  "generate_column_labels w
     = map format_02d (rev (map (\<lambda>i. 2 * i - 1) [1..(w + 1) div 2]) @ map (\<lambda>i. 2 * i) [1..w div 2])"
proof (cases "w mod 2 = 0")
  case True
  then have "(w + 1) div 2 = w div 2" by arith
  with True show ?thesis
    by (simp only: generate_column_labels_def simp_thms if_True Let_def prod.case map_append
        odd_labels [of format_02d] even_labels [of format_02d])
next
  case False
  then have "(w + 1) div 2 = w div 2 + 1" by arith
  with False show ?thesis
    by (simp only: generate_column_labels_def simp_thms if_False Let_def prod.case map_append
        odd_labels [of format_02d] even_labels [of format_02d])
qed

lemma length_generate_column_labels: "0 \<le> w \<Longrightarrow> length (generate_column_labels w) = nat w"
  unfolding generate_column_labels_numbers by simp

lemma nth_generate_column_labels:
  assumes "k < nat w"
  shows "generate_column_labels w ! k
    = format_02d (if int k < (w + 1) div 2 then 2 * ((w + 1) div 2) - 1 - 2 * int k
                  else 2 * (int k - (w + 1) div 2) + 2)"
proof (cases "int k < (w + 1) div 2")
  case True
  then have k: "k < nat ((w + 1) div 2)" by simp
  then have "rev (map (\<lambda>i. 2 * i - 1) [1..(w + 1) div 2]) ! k
      = 2 * (1 + int (nat ((w + 1) div 2) - Suc k)) - 1"
    by (simp add: rev_nth)
  also from k have "\<dots> = 2 * ((w + 1) div 2) - 1 - 2 * int k" by (simp add: of_nat_diff)
  finally show ?thesis
    using k True by (simp add: generate_column_labels_numbers nth_append)
next
  case False
  define j where "j = k - nat ((w + 1) div 2)"
  from False assms have j: "\<not> k < nat ((w + 1) div 2)" "j < nat (w div 2)"
      "int j = int k - (w + 1) div 2"
    unfolding j_def by arith+
  then have nth: "[1..w div 2] ! j = 1 + int j"
    by (intro nth_upto) arith
  have "generate_column_labels w ! k = map format_02d (map (\<lambda>i. 2 * i) [1..w div 2]) ! j"
    unfolding generate_column_labels_numbers j_def using j(1) by (simp add: nth_append)
  also from j(2) nth have "\<dots> = format_02d (2 * (1 + int j))"
    by simp
  also from j(3) have "2 * (1 + int j) = 2 * (int k - (w + 1) div 2) + 2"
    by simp
  finally show ?thesis
    using False by simp
qed

text \<open>
  Claim C3, as the code has it. For every \<open>w \<ge> 1\<close> there are \<open>w\<close> labels. They are the
  formatted numbers of the list that starts with the odd numbers from \<open>2 * left - 1\<close> down
  to 1, where \<open>left = (w + 1) div 2\<close> is half of \<open>w\<close> rounded up, and goes on with the even
  numbers from 2 up to \<open>2 * (w div 2)\<close>; the first part is strictly decreasing and the
  second part is strictly increasing. The format pads with zeros to the width two and
  does not cut: up to \<open>w = 99\<close> every label is the tens digit and the ones digit of its
  number, two characters.
\<close>

theorem generate_column_labels_shape:
  assumes "1 \<le> w"
  shows "length (generate_column_labels w) = nat w
    \<and> generate_column_labels w
        = map format_02d
            (rev (map (\<lambda>i. 2 * i - 1) [1..(w + 1) div 2]) @ map (\<lambda>i. 2 * i) [1..w div 2])
    \<and> sorted_wrt (>) (rev (map (\<lambda>i. 2 * i - 1) [1..(w + 1) div 2]))
    \<and> sorted_wrt (<) (map (\<lambda>i. 2 * i) [1..w div 2])
    \<and> (w \<le> 99 \<longrightarrow>
         generate_column_labels w
           = map (\<lambda>n. [48 + nat n div 10, 48 + nat n mod 10])
               (rev (map (\<lambda>i. 2 * i - 1) [1..(w + 1) div 2]) @ map (\<lambda>i. 2 * i) [1..w div 2]))"
proof -
  have dec: "sorted_wrt (>) (rev (map (\<lambda>i. 2 * i - 1) [1..(w + 1) div 2]))"
    by (simp add: sorted_wrt_rev sorted_wrt_map sorted_wrt_upto [THEN sorted_wrt_mono_rel, rotated])
  have inc: "sorted_wrt (<) (map (\<lambda>i. 2 * i) [1..w div 2])"
    by (simp add: sorted_wrt_map sorted_wrt_upto [THEN sorted_wrt_mono_rel, rotated])
  have two: "generate_column_labels w
           = map (\<lambda>n. [48 + nat n div 10, 48 + nat n mod 10])
               (rev (map (\<lambda>i. 2 * i - 1) [1..(w + 1) div 2]) @ map (\<lambda>i. 2 * i) [1..w div 2])"
    if "w \<le> 99"
    unfolding generate_column_labels_numbers
  proof (rule map_cong [OF refl])
    fix n
    assume "n \<in> set (rev (map (\<lambda>i. 2 * i - 1) [1..(w + 1) div 2]) @ map (\<lambda>i. 2 * i) [1..w div 2])"
    with that have "0 \<le> n \<and> n \<le> 99" by auto
    then show "format_02d n = [48 + nat n div 10, 48 + nat n mod 10]"
      by (simp add: format_02d_two_digits)
  qed
  from assms dec inc two show ?thesis
    using generate_column_labels_numbers [of w] by (simp add: length_generate_column_labels)
qed

theorem generate_column_labels_shape_witness:
  "generate_column_labels 7 = [[48, 55], [48, 53], [48, 51], [48, 49], [48, 50], [48, 52], [48, 54]]"
  using generate_column_labels_shape [of 7]
  by (simp add: upto_rec1 format_02d_two_digits)

text \<open>
  With a hundred seats in a row the last label is the text 100, of three characters.
\<close>

theorem generate_column_labels_100_counterexample:
  "generate_column_labels 100 ! 99 = [49, 48, 48]"
  by (simp add: nth_generate_column_labels format_02d_def digits10.simps [of 100]
      digits10.simps [of 10] digits10.simps [of "Suc 0"])

section \<open>The label at a position of the pattern\<close>

lemma seat_loop_balanced:
  "l + 1 = int n \<Longrightarrow> w - r = int n \<Longrightarrow>
   seat_loop w l r True p = p @ concat (map (\<lambda>j. [l - int j, r + int j]) [0..<n])"
proof (induction n arbitrary: l r p)
  case 0
  then show ?case
    by (subst seat_loop.simps) simp
next
  case (Suc n)
  then have bounds: "0 \<le> l" "r < w" by simp_all
  have "seat_loop w l r True p = seat_loop w (l - 1) r False (p @ [l])"
    using bounds by (subst seat_loop.simps) simp
  also have "\<dots> = seat_loop w (l - 1) (r + 1) True ((p @ [l]) @ [r])"
    using bounds by (subst seat_loop.simps) simp
  also have "\<dots> = ((p @ [l]) @ [r])
      @ concat (map (\<lambda>j. [l - 1 - int j, r + 1 + int j]) [0..<n])"
    using Suc.prems by (intro Suc.IH) simp_all
  also have "map (\<lambda>j. [l - 1 - int j, r + 1 + int j]) [0..<n]
      = map (\<lambda>j. [l - int j, r + int j]) (map Suc [0..<n])"
    by (simp add: algebra_simps)
  finally show ?case
    by (simp add: upt_conv_Cons map_Suc_upt del: upt_Suc)
qed

lemma length_concat_pairs: "length (concat (map (\<lambda>j. [f j, g j]) [0..<n])) = 2 * n"
  by (induction n) simp_all

lemma nth_concat_pairs:
  "k < 2 * n \<Longrightarrow>
   concat (map (\<lambda>j. [f j, g j]) [0..<n]) ! k = (if even k then f (k div 2) else g (k div 2))"
proof (induction n)
  case 0
  then show ?case by simp
next
  case (Suc n)
  show ?case
  proof (cases "k < 2 * n")
    case True
    with Suc.IH show ?thesis
      by (simp add: nth_append length_concat_pairs)
  next
    case False
    with Suc.prems have "k = 2 * n \<or> k = 2 * n + 1" by arith
    then show ?thesis
      by (auto simp add: nth_append length_concat_pairs)
  qed
qed

lemma compute_seating_pattern_even:
  assumes "w mod 2 = 0" and "0 \<le> w"
  shows "compute_seating_pattern w
    = concat (map (\<lambda>j. [w div 2 - 1 - int j, w div 2 + int j]) [0..<nat (w div 2)])"
proof -
  from assms have "w = 2 * (w div 2)" "0 \<le> w div 2"
    by presburger+
  then have "w div 2 - 1 + 1 = int (nat (w div 2))"
      "w - (w div 2 - 1 + 1) = int (nat (w div 2))"
    by linarith+
  then have "seat_loop w (w div 2 - 1) (w div 2 - 1 + 1) True []
    = [] @ concat (map (\<lambda>j. [w div 2 - 1 - int j, w div 2 - 1 + 1 + int j]) [0..<nat (w div 2)])"
    by (rule seat_loop_balanced)
  with assms show ?thesis
    by (simp add: compute_seating_pattern_def)
qed

lemma nth_compute_seating_pattern_even:
  assumes "w mod 2 = 0" and "0 \<le> w" and "k < nat w"
  shows "compute_seating_pattern w ! k
    = (if even k then w div 2 - 1 - int (k div 2) else w div 2 + int (k div 2))"
proof -
  from assms have "w = 2 * (w div 2)" "0 \<le> w div 2"
    by presburger+
  with assms(3) have "k < 2 * nat (w div 2)" by linarith
  then show ?thesis
    unfolding compute_seating_pattern_even [OF assms(1,2)] by (rule nth_concat_pairs)
qed

text \<open>
  Claim C9. For an even \<open>w \<ge> 2\<close> and every \<open>k < w\<close>, the label of the column at the
  \<open>k\<close>-th position of the fill pattern is the formatted number \<open>k + 1\<close>: the \<open>k\<close>-th
  attendee of a row sits on the seat with the number \<open>k + 1\<close>. The label is read as the
  source reads it, with \<^verbatim>\<open>col_labels[seat_index]\<close>, and the read does not fail.
\<close>

theorem label_of_pattern_even:
  assumes "w mod 2 = 0" and "2 \<le> w" and "k < nat w"
  shows "list_get (generate_column_labels w) (compute_seating_pattern w ! k)
    = Inr (format_02d (int k + 1))"
proof -
  from assms have w: "0 \<le> w" by simp
  from assms have half: "(w + 1) div 2 = w div 2" by arith
  let ?s = "compute_seating_pattern w ! k"
  have s: "?s = (if even k then w div 2 - 1 - int (k div 2) else w div 2 + int (k div 2))"
    using assms(1) w assms(3) by (rule nth_compute_seating_pattern_even)
  from assms have range: "0 \<le> ?s" "?s < w"
    unfolding s by (auto; arith)+
  then have idx: "nat ?s < nat w" "int (nat ?s) = ?s" by simp_all
  have "list_get (generate_column_labels w) ?s = Inr (generate_column_labels w ! nat ?s)"
    using range w by (simp add: list_get_def py_index_def length_generate_column_labels)
  also have "generate_column_labels w ! nat ?s
    = format_02d (if ?s < w div 2 then 2 * (w div 2) - 1 - 2 * ?s else 2 * (?s - w div 2) + 2)"
    using nth_generate_column_labels [OF idx(1)] by (simp only: idx(2) half)
  also have "(if ?s < w div 2 then 2 * (w div 2) - 1 - 2 * ?s else 2 * (?s - w div 2) + 2)
    = int k + 1"
    unfolding s by (cases "even k") (auto elim!: evenE oddE)
  finally show ?thesis .
qed

theorem label_of_pattern_even_witness:
  "list_get (generate_column_labels 10) (compute_seating_pattern 10 ! 6) = Inr [48, 55]"
  using label_of_pattern_even [of 10 6]
  by (simp add: format_02d_two_digits)

section \<open>Names that read as the missing value\<close>

text \<open>
  Claim C10. A name whose text, stripped and in lower case, is the text nan satisfies the
  condition of the reserved seat: its line of the explanation starts with the
  reserved-seat text and is the line that a missing name gets, although the name is
  present in the table.
\<close>

theorem nan_text_is_reserved:
  assumes "py_lower (py_strip s) = nan"
  shows "is_reserved (Text s)
    \<and> explanation_line \<lparr>PERSONID = i, NAME = Text s, ROW = r, SEAT = t\<rparr>
        = reserved_seat @ [32] @ zai @ r @ di @ t @ zuowei
    \<and> explanation_line \<lparr>PERSONID = i, NAME = Text s, ROW = r, SEAT = t\<rparr>
        = explanation_line \<lparr>PERSONID = i, NAME = Missing, ROW = r, SEAT = t\<rparr>"
  using assms by (simp add: explanation_line_def is_reserved_def)

theorem nan_text_is_reserved_witness:
  "explanation_line \<lparr>PERSONID = 7, NAME = Text [110, 97, 110], ROW = di @ yi @ pai, SEAT = [48, 49]\<rparr>
     = reserved_seat @ [32] @ zai @ (di @ yi @ pai) @ di @ [48, 49] @ zuowei
   \<and> explanation_line \<lparr>PERSONID = 7, NAME = Text [78, 97, 78], ROW = di @ yi @ pai, SEAT = [48, 49]\<rparr>
     = reserved_seat @ [32] @ zai @ (di @ yi @ pai) @ di @ [48, 49] @ zuowei
   \<and> explanation_line \<lparr>PERSONID = 7, NAME = Text [32, 78, 97, 78, 9], ROW = di @ yi @ pai, SEAT = [48, 49]\<rparr>
     = explanation_line \<lparr>PERSONID = 7, NAME = Missing, ROW = di @ yi @ pai, SEAT = [48, 49]\<rparr>"
proof -
  have "py_lower (py_strip [110, 97, 110]) = nan" "py_lower (py_strip [78, 97, 78]) = nan"
      "py_lower (py_strip [32, 78, 97, 78, 9]) = nan"
    by (simp_all add: py_lower_def py_strip_def py_isspace_def nan_def)
  then show ?thesis
    using nan_text_is_reserved [of "[110, 97, 110]" 7 "di @ yi @ pai" "[48, 49]"]
      nan_text_is_reserved [of "[78, 97, 78]" 7 "di @ yi @ pai" "[48, 49]"]
      nan_text_is_reserved [of "[32, 78, 97, 78, 9]" 7 "di @ yi @ pai" "[48, 49]"]
    by blast
qed

section \<open>Properties of the seating chart\<close>

lemma num_to_chinese_returns:
  assumes "1 \<le> n" and "n \<le> 109"
  shows "\<exists>s. num_to_chinese n = Inr s"
proof (cases "mapping n")
  case (Some v)
  then show ?thesis
    by (simp add: num_to_chinese_def)
next
  case None
  from assms have "1 < n div 10 \<Longrightarrow> mapping_get (n div 10) = Inr (atomic_token (n div 10))"
    by (intro mapping_get_digit) arith+
  moreover have "n mod 10 \<noteq> 0 \<Longrightarrow> mapping_get (n mod 10) = Inr (atomic_token (n mod 10))"
    by (rule mapping_get_digit) (use pos_mod_sign [of 10 n] pos_mod_bound [of 10 n] in arith)+
  ultimately show ?thesis
    using None by (auto simp add: num_to_chinese_def Let_def)
qed

lemma row_label_of_returns:
  "1 \<le> n \<Longrightarrow> n \<le> 109 \<Longrightarrow> row_label_of n = Inr (the_row_label n)"
  using num_to_chinese_returns [of n] by (auto simp add: row_label_of_def the_row_label_def)

lemma row_label_of_110: "row_label_of 110 = Inl KeyError"
  by (simp add: row_label_of_def num_to_chinese_def mapping_def mapping_get_def)

lemma list_set_in_range:
  "0 \<le> i \<Longrightarrow> i < int (length xs) \<Longrightarrow> list_set xs i v = Inr (xs[nat i := v])"
  by (simp add: list_set_def py_index_def)

lemma list_get_in_range:
  "0 \<le> i \<Longrightarrow> i < int (length xs) \<Longrightarrow> list_get xs i = Inr (xs ! nat i)"
  by (simp add: list_get_def py_index_def)

lemma upt_length_Cons: "[i..<i + length (p # ps)] = i # [Suc i..<Suc i + length ps]"
  by (subst upt_rec) simp

lemma place_cells_Cons:
  "place_cells pat i (p # ps) rs = place_cells pat (Suc i) ps (rs[nat (pat ! i) := NAME p])"
  unfolding place_cells_def upt_length_Cons by simp

lemma placements_Cons:
  "placements pat labs lbl i (p # ps)
     = \<lparr>PERSONID = PERSONID p, NAME = NAME p, ROW = lbl, SEAT = labs ! nat (pat ! i)\<rparr>
         # placements pat labs lbl (Suc i) ps"
  unfolding placements_def upt_length_Cons by simp

lemma length_place_cells [simp]: "length (place_cells pat i ps rs) = length rs"
proof (induction ps arbitrary: i rs)
  case Nil
  then show ?case by (simp add: place_cells_def)
next
  case (Cons p ps)
  from Cons.IH [of "Suc i" "rs[nat (pat ! i) := NAME p]"] show ?case
    by (simp add: place_cells_Cons)
qed

lemma place_persons_closed:
  assumes "row_label_of (row + 1) = Inr lbl"
    and "i + length ps \<le> length pat"
    and "\<forall>j<length pat. 0 \<le> pat ! j \<and> pat ! j < int (length rs)"
    and "length labs = length rs"
  shows "place_persons pat labs row i ps (rs, asg)
    = Inr (place_cells pat i ps rs, asg @ placements pat labs lbl i ps)"
  using assms(2,3,4)
proof (induction ps arbitrary: i rs asg)
  case Nil
  then show ?case
    by (simp add: place_cells_def placements_def)
next
  case (Cons p ps)
  then have i: "i < length pat" and r: "0 \<le> pat ! i" "pat ! i < int (length rs)"
    by simp_all
  have "place_persons pat labs row (Suc i) ps
      (rs[nat (pat ! i) := NAME p],
       asg @ [\<lparr>PERSONID = PERSONID p, NAME = NAME p, ROW = lbl, SEAT = labs ! nat (pat ! i)\<rparr>])
    = Inr (place_cells pat (Suc i) ps (rs[nat (pat ! i) := NAME p]),
       (asg @ [\<lparr>PERSONID = PERSONID p, NAME = NAME p, ROW = lbl, SEAT = labs ! nat (pat ! i)\<rparr>])
         @ placements pat labs lbl (Suc i) ps)"
    using Cons.prems by (intro Cons.IH) simp_all
  with i r Cons.prems(3) assms(1) show ?case
    by (simp add: list_set_in_range list_get_in_range place_cells_Cons placements_Cons Let_def)
qed

lemma nth_place_cells:
  assumes "distinct pat"
    and "\<forall>j<length pat. 0 \<le> pat ! j \<and> pat ! j < int (length rs)"
    and "i + length ps \<le> length pat"
    and "j < length pat"
  shows "place_cells pat i ps rs ! nat (pat ! j)
    = (if i \<le> j \<and> j < i + length ps then NAME (ps ! (j - i)) else rs ! nat (pat ! j))"
  using assms(2,3)
proof (induction ps arbitrary: i rs)
  case Nil
  then show ?case by (auto simp add: place_cells_def)
next
  case (Cons p ps)
  let ?rs = "rs[nat (pat ! i) := NAME p]"
  from Cons.prems have i: "i < length pat" by simp
  have IH: "place_cells pat (Suc i) ps ?rs ! nat (pat ! j)
    = (if Suc i \<le> j \<and> j < Suc i + length ps then NAME (ps ! (j - Suc i))
       else ?rs ! nat (pat ! j))"
    using Cons.prems by (intro Cons.IH) simp_all
  show ?case
  proof (cases "j = i")
    case True
    from Cons.prems(1) i have "nat (pat ! i) < length rs"
      by (simp add: nat_less_iff)
    with True Cons.prems i IH show ?thesis
      by (simp add: place_cells_Cons)
  next
    case False
    with assms(1,4) i have "pat ! j \<noteq> pat ! i"
      by (simp add: nth_eq_iff_index_eq)
    moreover from Cons.prems(1) assms(4) i have "0 \<le> pat ! j" "0 \<le> pat ! i"
      by simp_all
    ultimately have "nat (pat ! i) \<noteq> nat (pat ! j)"
      by simp
    with False IH show ?thesis
      by (auto simp add: place_cells_Cons Suc_diff_le)
  qed
qed

lemma iloc_chunk:
  assumes "0 \<le> a" and "0 \<le> w"
  shows "iloc xs a (min (a + w) (int (length xs))) = take (nat w) (drop (nat a) xs)"
proof (cases "nat a < length xs")
  case True
  with assms have start: "slice_index (length xs) a = nat a"
    by (simp add: slice_index_def)
  from True assms have "0 \<le> min (a + w) (int (length xs))"
    by simp
  then have "slice_index (length xs) (min (a + w) (int (length xs)))
      = min (length xs) (nat (min (a + w) (int (length xs))))"
    by (simp add: slice_index_def)
  also from True assms have "\<dots> - nat a = min (nat w) (length xs - nat a)"
    by arith
  finally show ?thesis
    using start by (simp add: iloc_def Let_def min_def)
next
  case False
  with assms show ?thesis
    by (simp add: iloc_def slice_index_def)
qed

lemma fill_rows_closed:
  assumes "1 \<le> W"
    and "length pat = nat W"
    and "\<forall>j<length pat. 0 \<le> pat ! j \<and> pat ! j < W"
    and "length labs = nat W"
    and "\<forall>k\<in>set rows. 0 \<le> k \<and> k \<le> 108"
  shows "fill_rows S W pat labs rows (chart, asg)
    = Inr (chart @ map (\<lambda>k. place_cells pat 0 (row_persons S (nat W) (nat k))
                              (replicate (nat W) (Text []))) rows,
           asg @ concat (map (\<lambda>k. placements pat labs (the_row_label (k + 1)) 0
                                     (row_persons S (nat W) (nat k))) rows))"
  using assms(5)
proof (induction rows arbitrary: chart asg)
  case Nil
  then show ?case by simp
next
  case (Cons k rows)
  then have k: "0 \<le> k" "k \<le> 108" by simp_all
  let ?ps = "row_persons S (nat W) (nat k)"
  from k assms(1) have "0 \<le> k * W" by simp
  then have "iloc S (k * W) (min (k * W + W) (int (length S)))
      = take (nat W) (drop (nat (k * W)) S)"
    using assms(1) by (intro iloc_chunk) simp_all
  also from k assms(1) have "nat (k * W) = nat k * nat W"
    by (simp add: nat_mult_distrib)
  finally have persons: "iloc S (k * W) (min (k * W + W) (int (length S))) = ?ps"
    by (simp add: row_persons_def)
  have "place_persons pat labs k 0 ?ps (replicate (nat W) (Text []), asg)
    = Inr (place_cells pat 0 ?ps (replicate (nat W) (Text [])),
           asg @ placements pat labs (the_row_label (k + 1)) 0 ?ps)"
  proof (rule place_persons_closed)
    from k show "row_label_of (k + 1) = Inr (the_row_label (k + 1))"
      by (intro row_label_of_returns) simp_all
    from assms(2) show "0 + length ?ps \<le> length pat"
      by (simp add: row_persons_def)
    from assms(1,3) show "\<forall>j<length pat. 0 \<le> pat ! j
        \<and> pat ! j < int (length (replicate (nat W) (Text [])))"
      by simp
    from assms(4) show "length labs = length (replicate (nat W) (Text []))"
      by simp
  qed
  moreover from Cons.prems have "\<forall>k\<in>set rows. 0 \<le> k \<and> k \<le> 108"
    by simp
  ultimately show ?case
    using Cons.IH by (simp add: persons Let_def)
qed

lemma fill_rows_append:
  "fill_rows S W pat labs (xs @ ys) st
    = (case fill_rows S W pat labs xs st of
         Inl e \<Rightarrow> Inl e
       | Inr st' \<Rightarrow> fill_rows S W pat labs ys st')"
proof (induction xs arbitrary: st)
  case Nil
  then show ?case by simp
next
  case (Cons k xs)
  obtain chart asg where st: "st = (chart, asg)"
    by (cases st)
  show ?case
    unfolding st by (simp add: Cons.IH Let_def split: sum.splits prod.splits)
qed

lemma ceil_bounds:
  fixes W N :: int
  assumes "1 \<le> W"
  shows "(- ((- N) div W) - 1) * W < N" and "N \<le> - ((- N) div W) * W"
proof -
  define q r where "q = (- N) div W" and "r = (- N) mod W"
  from assms have "0 \<le> r" "r < W"
    by (simp_all add: r_def)
  moreover have "- N = q * W + r"
    by (simp add: q_def r_def)
  ultimately have "(- q - 1) * W < N" "N \<le> - q * W"
    by (simp_all add: algebra_simps)
  then show "(- ((- N) div W) - 1) * W < N" "N \<le> - ((- N) div W) * W"
    by (simp_all add: q_def)
qed

lemma ceil_rows_le:
  fixes W N c :: int
  assumes "1 \<le> W" and "N \<le> c * W"
  shows "- ((- N) div W) \<le> c"
proof -
  from ceil_bounds(1) [OF assms(1), of N] assms(2)
  have "(- ((- N) div W) - 1) * W < c * W" by simp
  moreover from assms(1) have "0 \<le> W" by simp
  ultimately have "- ((- N) div W) - 1 < c"
    by (rule mult_right_less_imp_less)
  then show ?thesis by simp
qed

lemma ceil_rows_gt:
  fixes W N c :: int
  assumes "1 \<le> W" and "c * W < N"
  shows "c < - ((- N) div W)"
proof -
  from ceil_bounds(2) [OF assms(1), of N] assms(2)
  have "c * W < - ((- N) div W) * W" by simp
  moreover from assms(1) have "0 \<le> W" by simp
  ultimately show ?thesis
    by (rule mult_right_less_imp_less)
qed

lemma upto_map_int: "[0..int n - 1] = map int [0..<n]"
proof (induction n)
  case 0
  then show ?case by simp
next
  case (Suc n)
  have "[0..int (Suc n) - 1] = [0..int n - 1] @ [int n]"
    using upto_rec2 [of 0 "int n"] by simp
  with Suc show ?case by simp
qed

lemma length_placements [simp]: "length (placements pat labs lbl s ps) = length ps"
  by (simp add: placements_def)

lemma nth_placements:
  "i < length ps \<Longrightarrow>
   placements pat labs lbl s ps ! i
     = \<lparr>PERSONID = PERSONID (ps ! i), NAME = NAME (ps ! i), ROW = lbl,
        SEAT = labs ! nat (pat ! (s + i))\<rparr>"
  by (simp add: placements_def)

lemma length_row_persons: "length (row_persons S w r) = min w (length S - r * w)"
  by (simp add: row_persons_def)

lemma nth_row_persons:
  assumes "i < length (row_persons S w r)"
  shows "row_persons S w r ! i = S ! (r * w + i)"
proof -
  from assms have "i < w" "r * w \<le> length S"
    by (simp_all add: row_persons_def) arith
  then show ?thesis
    by (simp add: row_persons_def)
qed

lemma placements_row:
  assumes "0 < w"
  shows "placements pat labs (L r) 0 (row_persons S w r)
    = map (\<lambda>j. \<lparr>PERSONID = PERSONID (S ! j), NAME = NAME (S ! j), ROW = L (j div w),
                   SEAT = labs ! nat (pat ! (j mod w))\<rparr>)
        [min (r * w) (length S)..<min (Suc r * w) (length S)]"
proof (rule nth_equalityI)
  show len: "length (placements pat labs (L r) 0 (row_persons S w r))
    = length (map (\<lambda>j. \<lparr>PERSONID = PERSONID (S ! j), NAME = NAME (S ! j), ROW = L (j div w),
                   SEAT = labs ! nat (pat ! (j mod w))\<rparr>)
        [min (r * w) (length S)..<min (Suc r * w) (length S)])"
    by (simp add: length_row_persons)
  fix i
  assume "i < length (placements pat labs (L r) 0 (row_persons S w r))"
  then have i: "i < length (row_persons S w r)"
    by simp
  then have b: "i < w" "r * w + i < length S"
    by (simp_all add: length_row_persons) arith
  define e where "e = min (Suc r * w) (length S)"
  from b have m: "min (r * w) (length S) = r * w" "r * w + i < e"
    by (simp_all add: e_def)
  then have u: "i < length [r * w..<e]" "[r * w..<e] ! i = r * w + i"
    by simp_all
  from b assms have d: "(r * w + i) div w = r" "(r * w + i) mod w = i"
    by simp_all
  from i u d show "placements pat labs (L r) 0 (row_persons S w r) ! i
    = map (\<lambda>j. \<lparr>PERSONID = PERSONID (S ! j), NAME = NAME (S ! j), ROW = L (j div w),
                   SEAT = labs ! nat (pat ! (j mod w))\<rparr>)
        [min (r * w) (length S)..<min (Suc r * w) (length S)] ! i"
    unfolding m(1) e_def [symmetric]
    by (simp add: nth_placements nth_row_persons del: length_upt nth_upt)
qed

lemma concat_placements:
  assumes "0 < w"
  shows "concat (map (\<lambda>r. placements pat labs (L r) 0 (row_persons S w r)) [0..<n])
    = map (\<lambda>j. \<lparr>PERSONID = PERSONID (S ! j), NAME = NAME (S ! j), ROW = L (j div w),
                   SEAT = labs ! nat (pat ! (j mod w))\<rparr>)
        [0..<min (n * w) (length S)]"
proof (induction n)
  case 0
  then show ?case by simp
next
  case (Suc n)
  define a b where "a = min (n * w) (length S)" and "b = min (Suc n * w) (length S)"
  have "a \<le> b"
    by (simp add: a_def b_def)
  then have "[0..<b] = [0..<a] @ [a..<b]"
    using upt_add_eq_append [of 0 a "b - a"] by simp
  with Suc show ?case
    unfolding a_def b_def
    by (simp add: placements_row [OF assms] del: mult_Suc)
qed

lemma pattern_in_range:
  assumes "1 \<le> W"
  shows "\<forall>j<length (compute_seating_pattern W).
    0 \<le> compute_seating_pattern W ! j \<and> compute_seating_pattern W ! j < W"
proof (intro allI impI)
  fix j
  assume "j < length (compute_seating_pattern W)"
  then have "compute_seating_pattern W ! j \<in> set (compute_seating_pattern W)"
    by simp
  with assms show "0 \<le> compute_seating_pattern W ! j \<and> compute_seating_pattern W ! j < W"
    by (simp add: set_compute_seating_pattern)
qed

lemma rows_bounds:
  assumes "1 \<le> W" and "int n \<le> 109 * W"
  shows "0 \<le> - ((- int n) div W)" and "- ((- int n) div W) \<le> 109"
    and "n \<le> nat (- ((- int n) div W)) * nat W"
proof -
  let ?R = "- ((- int n) div W)"
  from assms(1) have "- 1 * W < int n" by simp
  with assms(1) have "- 1 < ?R" by (rule ceil_rows_gt)
  then show R0: "0 \<le> ?R" by simp
  from assms show "?R \<le> 109" by (rule ceil_rows_le)
  from R0 assms(1) have "int (nat ?R * nat W) = ?R * W"
    by simp
  with ceil_bounds(2) [OF assms(1), of "int n"] show "n \<le> nat ?R * nat W"
    by linarith
qed

lemma assign_seats_closed:
  assumes "1 \<le> W" and "int (length df) \<le> 109 * W"
    and sv: "sorts_by_PERSONID sort_values"
  shows "assign_seats sort_values df W
    = Inr (- ((- int (length df)) div W),
           map (cells_at (sort_values df) W) [0..<nat (- ((- int (length df)) div W))],
           map (placement_at (sort_values df) W) [0..<length df])"
proof -
  define S where "S = sort_values df"
  define R where "R = - ((- int (length df)) div W)"
  define pat where "pat = compute_seating_pattern W"
  define labs where "labs = generate_column_labels W"
  from sv have len: "length S = length df"
    by (simp add: S_def length_sort_values)
  from rows_bounds [OF assms(1,2)] have R: "0 \<le> R" "R \<le> 109" "length S \<le> nat R * nat W"
    by (simp_all add: R_def len)
  from assms(1) have w: "0 < nat W" by simp
  from R(1) have rows: "[0..R - 1] = map int [0..<nat R]"
    using upto_map_int [of "nat R"] by simp
  have "fill_rows S W pat labs (map int [0..<nat R]) ([], [])
    = Inr ([] @ map (\<lambda>k. place_cells pat 0 (row_persons S (nat W) (nat k))
                              (replicate (nat W) (Text []))) (map int [0..<nat R]),
           [] @ concat (map (\<lambda>k. placements pat labs (the_row_label (k + 1)) 0
                                     (row_persons S (nat W) (nat k))) (map int [0..<nat R])))"
  proof (rule fill_rows_closed)
    show "1 \<le> W" by fact
    from assms(1) show "length pat = nat W"
      by (simp add: pat_def length_compute_seating_pattern)
    from assms(1) show "\<forall>j<length pat. 0 \<le> pat ! j \<and> pat ! j < W"
      unfolding pat_def by (rule pattern_in_range)
    from assms(1) show "length labs = nat W"
      by (simp add: labs_def length_generate_column_labels)
    from R(2) show "\<forall>k\<in>set (map int [0..<nat R]). 0 \<le> k \<and> k \<le> 108"
      by auto
  qed
  also have "map (\<lambda>k. place_cells pat 0 (row_persons S (nat W) (nat k))
                              (replicate (nat W) (Text []))) (map int [0..<nat R])
    = map (cells_at S W) [0..<nat R]"
    by (simp add: cells_at_def pat_def o_def)
  also have "concat (map (\<lambda>k. placements pat labs (the_row_label (k + 1)) 0
                                     (row_persons S (nat W) (nat k))) (map int [0..<nat R]))
    = concat (map (\<lambda>r. placements pat labs (the_row_label (int r + 1)) 0
                                     (row_persons S (nat W) r)) [0..<nat R])"
    by (simp add: o_def)
  also have "\<dots> = map (\<lambda>j. \<lparr>PERSONID = PERSONID (S ! j), NAME = NAME (S ! j),
                   ROW = the_row_label (int (j div nat W) + 1),
                   SEAT = labs ! nat (pat ! (j mod nat W))\<rparr>)
        [0..<min (nat R * nat W) (length S)]"
    using w by (rule concat_placements)
  also from R(3) have "\<dots> = map (placement_at S W) [0..<length df]"
    by (simp add: placement_at_def pat_def labs_def len min_def)
  finally have "fill_rows S W pat labs [0..R - 1] ([], [])
    = Inr (map (cells_at S W) [0..<nat R], map (placement_at S W) [0..<length df])"
    by (simp add: rows)
  moreover from assms(1) have "ceil_div (int (length S)) W = Inr R"
    by (simp add: ceil_div_def R_def len)
  ultimately show ?thesis
    unfolding assign_seats_def S_def [symmetric] pat_def [symmetric] labs_def [symmetric]
      R_def [symmetric]
    by (simp add: Let_def)
qed

lemma collect_returns: "\<forall>x\<in>set xs. f x = Inr (g x) \<Longrightarrow> collect f xs = Inr (map g xs)"
  by (induction xs) simp_all

lemma map_PERSONID_placement:
  "map PERSONID (map (placement_at S W) [0..<length S]) = map PERSONID S"
  by (rule nth_equalityI) (simp_all add: placement_at_def)

lemma map_NAME_placement:
  "map NAME (map (placement_at S W) [0..<length S]) = map NAME S"
  by (rule nth_equalityI) (simp_all add: placement_at_def)

lemma sort_placements:
  assumes "sorts_by_PERSONID sort_values"
  shows "sort_key PERSONID (map (placement_at (sort_values df) W) [0..<length df])
    = map (placement_at (sort_values df) W) [0..<length df]"
proof (rule sort_key_id_if_sorted)
  have "map PERSONID (map (placement_at (sort_values df) W)
      [0..<length (sort_values df)]) = map PERSONID (sort_values df)"
    by (rule map_PERSONID_placement)
  with assms show "sorted (map PERSONID (map (placement_at (sort_values df) W) [0..<length df]))"
    by (simp add: length_sort_values sorted_sort_values)
qed

lemma generate_seating_chart_closed:
  assumes "1 \<le> W" and "int (length df) \<le> 109 * W"
    and sv: "sorts_by_PERSONID sort_values"
  shows "generate_seating_chart sort_values df W
    = Inr (\<lparr>columns = paihao # generate_column_labels W,
             final_table = rev (map (\<lambda>r. Text (the_row_label (int r + 1))
                                            # cells_at (sort_values df) W r)
                                  [0..<nat (- ((- int (length df)) div W))])\<rparr>,
           join [10] (map explanation_line
             (map (placement_at (sort_values df) W) [0..<length df])))"
proof -
  define R where "R = - ((- int (length df)) div W)"
  from rows_bounds [OF assms(1,2)] have R: "0 \<le> R" "R \<le> 109"
    by (simp_all add: R_def)
  from R(1) have rows: "[0..R - 1] = map int [0..<nat R]"
    using upto_map_int [of "nat R"] by simp
  have "collect (\<lambda>i. row_label_of (i + 1)) (map int [0..<nat R])
    = Inr (map (\<lambda>i. the_row_label (i + 1)) (map int [0..<nat R]))"
  proof (rule collect_returns, rule ballI)
    fix i
    assume "i \<in> set (map int [0..<nat R])"
    with R(2) have "1 \<le> i + 1" "i + 1 \<le> 109" by auto
    then show "row_label_of (i + 1) = Inr (the_row_label (i + 1))"
      by (rule row_label_of_returns)
  qed
  then have labels: "collect (\<lambda>i. row_label_of (i + 1)) [0..R - 1]
    = Inr (map (\<lambda>r. the_row_label (int r + 1)) [0..<nat R])"
    by (simp add: rows o_def)
  have "zip (rev (map (\<lambda>r. the_row_label (int r + 1)) [0..<nat R]))
        (rev (map (cells_at (sort_values df) W) [0..<nat R]))
    = rev (map (\<lambda>r. (the_row_label (int r + 1), cells_at (sort_values df) W r))
        [0..<nat R])"
    by (simp add: zip_rev zip_map_map zip_same_conv_map flip: rev_map)
  then have table: "map (\<lambda>(label, row). Text label # row)
      (zip (rev (map (\<lambda>r. the_row_label (int r + 1)) [0..<nat R]))
        (rev (map (cells_at (sort_values df) W) [0..<nat R])))
    = rev (map (\<lambda>r. Text (the_row_label (int r + 1)) # cells_at (sort_values df) W r)
        [0..<nat R])"
    by (simp add: rev_map o_def)
  show ?thesis
    unfolding generate_seating_chart_def assign_seats_closed [OF assms] R_def [symmetric]
    by (simp add: labels table sort_placements [OF sv] Let_def)
qed

lemma place_persons_fails:
  assumes "row_label_of (row + 1) = Inl e"
    and "0 < length pat" and "0 \<le> pat ! 0" and "pat ! 0 < int (length rs)"
  shows "place_persons pat labs row 0 (p # ps) (rs, asg) = Inl e"
  using assms by (simp add: list_set_in_range Let_def)

lemma assign_seats_fails:
  assumes "1 \<le> W" and "109 * W < int (length df)"
    and sv: "sorts_by_PERSONID sort_values"
  shows "assign_seats sort_values df W = Inl KeyError"
proof -
  define S where "S = sort_values df"
  define R where "R = - ((- int (length df)) div W)"
  define pat where "pat = compute_seating_pattern W"
  define labs where "labs = generate_column_labels W"
  from sv have len: "length S = length df"
    by (simp add: S_def length_sort_values)
  from assms(1,2) have R: "109 < R"
    unfolding R_def by (rule ceil_rows_gt)
  then have rows: "[0..R - 1] = [0..108] @ 109 # [110..R - 1]"
    using upto_split3 [of 0 109 "R - 1"] by simp
  from assms(1) have pat: "length pat = nat W" "\<forall>j<length pat. 0 \<le> pat ! j \<and> pat ! j < W"
    by (simp_all add: pat_def length_compute_seating_pattern pattern_in_range)
  from assms(1) have labs: "length labs = nat W"
    by (simp add: labs_def length_generate_column_labels)
  obtain chart asg where first: "fill_rows S W pat labs [0..108] ([], []) = Inr (chart, asg)"
    using fill_rows_closed [OF assms(1) pat labs, of "[0..108]" S "[]" "[]"] by simp
  from assms(1) have "iloc S (109 * W) (min (109 * W + W) (int (length S)))
      = take (nat W) (drop (nat (109 * W)) S)"
    by (intro iloc_chunk) simp_all
  moreover from assms(1,2) have "take (nat W) (drop (nat (109 * W)) S) \<noteq> []"
    by (simp add: len)
  ultimately obtain p ps
    where persons: "iloc S (109 * W) (min (109 * W + W) (int (length S))) = p # ps"
    by (cases "take (nat W) (drop (nat (109 * W)) S)") simp_all
  have fails:
    "place_persons pat labs 109 0 (p # ps) (replicate (nat W) (Text []), asg) = Inl KeyError"
  proof (rule place_persons_fails)
    show "row_label_of (109 + 1) = Inl KeyError"
      by (simp add: row_label_of_110)
    from assms(1) pat(1) show "0 < length pat" by simp
    with pat(2) assms(1) show "0 \<le> pat ! 0" "pat ! 0 < int (length (replicate (nat W) (Text [])))"
      by simp_all
  qed
  have "fill_rows S W pat labs (109 # [110..R - 1]) (chart, asg) = Inl KeyError"
    unfolding fill_rows.simps Let_def persons fails by simp
  with first have "fill_rows S W pat labs [0..R - 1] ([], []) = Inl KeyError"
    by (simp add: rows fill_rows_append)
  moreover from assms(1) have "ceil_div (int (length S)) W = Inr R"
    by (simp add: ceil_div_def R_def len)
  ultimately show ?thesis
    unfolding assign_seats_def S_def [symmetric] pat_def [symmetric] labs_def [symmetric]
    by (simp add: Let_def)
qed

lemma generate_seating_chart_fails:
  "1 \<le> W \<Longrightarrow> 109 * W < int (length df) \<Longrightarrow> sorts_by_PERSONID sort_values \<Longrightarrow>
   generate_seating_chart sort_values df W = Inl KeyError"
  by (simp add: generate_seating_chart_def assign_seats_fails)

lemma generate_seating_chart_returns_iff:
  assumes "1 \<le> W" and "sorts_by_PERSONID sort_values"
  shows "(\<exists>r. generate_seating_chart sort_values df W = Inr r)
    \<longleftrightarrow> int (length df) \<le> 109 * W"
proof (cases "int (length df) \<le> 109 * W")
  case True
  with assms show ?thesis
    by (simp add: generate_seating_chart_closed)
next
  case False
  with assms have "generate_seating_chart sort_values df W = Inl KeyError"
    by (intro generate_seating_chart_fails) simp_all
  with False show ?thesis by simp
qed

lemma length_cells_at [simp]: "length (cells_at S W r) = nat W"
  by (simp add: cells_at_def)

lemma nth_cells_at:
  assumes "1 \<le> W" and "j < nat W"
  shows "cells_at S W r ! nat (compute_seating_pattern W ! j)
    = (if r * nat W + j < length S then NAME (S ! (r * nat W + j)) else Text [])"
proof -
  let ?pat = "compute_seating_pattern W" and ?ps = "row_persons S (nat W) r"
  from assms(1) have len: "length ?pat = nat W"
    by (rule length_compute_seating_pattern)
  from assms(1) have range: "\<forall>j<length ?pat. 0 \<le> ?pat ! j \<and> ?pat ! j < W"
    by (rule pattern_in_range)
  have "place_cells ?pat 0 ?ps (replicate (nat W) (Text [])) ! nat (?pat ! j)
    = (if 0 \<le> j \<and> j < 0 + length ?ps then NAME (?ps ! (j - 0))
       else replicate (nat W) (Text []) ! nat (?pat ! j))"
  proof (rule nth_place_cells)
    from assms(1) show "distinct ?pat"
      by (rule distinct_compute_seating_pattern)
    from range assms(1) show "\<forall>j<length ?pat. 0 \<le> ?pat ! j
        \<and> ?pat ! j < int (length (replicate (nat W) (Text [])))"
      by simp
    show "0 + length ?ps \<le> length ?pat"
      by (simp add: len length_row_persons)
    from assms(2) show "j < length ?pat"
      by (simp add: len)
  qed
  moreover from range assms(2) have "nat (?pat ! j) < nat W"
    by (simp add: len nat_less_iff)
  moreover from assms(2) have "j < length ?ps \<longleftrightarrow> r * nat W + j < length S"
    by (simp add: length_row_persons) arith
  ultimately show ?thesis
    by (simp add: cells_at_def nth_row_persons)
qed

lemma ceil_div_real:
  "\<lceil>real n / real_of_int W\<rceil> = - ((- int n) div W)"
  using ceiling_divide_eq_div [of "int n" W] by simp

lemma last_row_bounds:
  assumes "1 \<le> W" and "int N \<le> 109 * W" and "Suc r = nat (- ((- int N) div W))"
  shows "r * nat W < N" and "N \<le> r * nat W + nat W"
proof -
  let ?R = "- ((- int N) div W)"
  from assms(3) have R: "?R = int r + 1" by linarith
  from ceil_bounds(1) [OF assms(1), of "int N"] have "int r * W < int N"
    by (simp add: R)
  moreover from assms(1) have "int (r * nat W) = int r * W" by simp
  ultimately show "r * nat W < N" by linarith
  have "N \<le> nat ?R * nat W"
    using assms(1,2) by (rule rows_bounds(3))
  also from R have "nat ?R = Suc r" by simp
  finally show "N \<le> r * nat W + nat W" by simp
qed

lemma join_terminated: "ls \<noteq> [] \<Longrightarrow> join sep ls @ sep = concat (map (\<lambda>l. l @ sep) ls)"
  by (induction sep ls rule: join.induct) simp_all

lemma ids_sort_values:
  assumes "sorts_by_PERSONID sort_values"
  shows "map PERSONID (sort_values df) = sort (map PERSONID df)"
proof -
  from assms have "mset (map PERSONID (sort_values df)) = mset (map PERSONID df)"
    by (simp add: mset_sort_values)
  moreover from assms have "sorted (map PERSONID (sort_values df))"
    by (rule sorted_sort_values)
  ultimately have "sort (map PERSONID df) = map PERSONID (sort_values df)"
    by (rule properties_for_sort)
  then show ?thesis by simp
qed

lemma explanation_line_eq:
  "explanation_line a
    = (if is_reserved (NAME a) then reserved_seat else py_str (NAME a))
        @ [32] @ zai @ ROW a @ di @ SEAT a @ zuowei"
  by (simp add: explanation_line_def)

lemma nth_placement_labels:
  assumes "1 \<le> W" and "int (length S) \<le> 109 * W" and "j < length S"
  shows "row_label_of (int (j div nat W) + 1) = Inr (ROW (placement_at S W j))"
    and "list_get (generate_column_labels W) (compute_seating_pattern W ! (j mod nat W))
      = Inr (SEAT (placement_at S W j))"
proof -
  from assms(1) have w: "0 < nat W" by simp
  from assms have "j < 109 * nat W"
    by linarith
  then have "j div nat W < 109"
    by (rule less_mult_imp_div_less)
  then have "int (j div nat W) < 109"
    by simp
  then show "row_label_of (int (j div nat W) + 1) = Inr (ROW (placement_at S W j))"
    by (simp add: placement_at_def row_label_of_returns)
  from w have m: "j mod nat W < length (compute_seating_pattern W)"
    using assms(1) by (simp add: length_compute_seating_pattern)
  with pattern_in_range [OF assms(1)]
  have "0 \<le> compute_seating_pattern W ! (j mod nat W)"
      "compute_seating_pattern W ! (j mod nat W) < int (length (generate_column_labels W))"
    using assms(1) by (simp_all add: length_generate_column_labels)
  then show "list_get (generate_column_labels W) (compute_seating_pattern W ! (j mod nat W))
      = Inr (SEAT (placement_at S W j))"
    by (simp add: list_get_in_range placement_at_def)
qed

text \<open>
  Claim C6, as the code has it. Let \<open>N\<close> be the number of attendees, \<open>W \<ge> 1\<close>, and let
  \<open>sort_values\<close> be a sorting function of the kind described. When \<open>N \<le> 109 * W\<close> the call
  returns, the chart has \<open>ceil(N / W)\<close> logical rows of \<open>W\<close> cells, and the table that is
  returned has these rows in the reversed order, each after its label. In every row but
  the last, the cell at the \<open>j\<close>-th position of the fill pattern holds the name of the
  \<open>j\<close>-th attendee of the row in the sorted table, for all \<open>j < W\<close>. In the last row, of
  index \<open>r\<close>, this holds for the first \<open>N - W * r\<close> positions of the pattern, a number
  between 1 and \<open>W\<close>, and the cells at the other positions of the pattern hold the empty
  text. When \<open>N > 109 * W\<close> the call fails with \<^verbatim>\<open>KeyError\<close>: the label of the row 110
  does not exist.
\<close>

theorem chart_rows_and_fill:
  assumes "1 \<le> W" and "sorts_by_PERSONID sort_values"
  shows "(int (length df) \<le> 109 * W \<longrightarrow>
       (\<exists>chart asg sdf text.
           assign_seats sort_values df W = Inr (\<lceil>real (length df) / real_of_int W\<rceil>, chart, asg)
         \<and> generate_seating_chart sort_values df W = Inr (sdf, text)
         \<and> length chart = nat \<lceil>real (length df) / real_of_int W\<rceil>
         \<and> length (final_table sdf) = length chart
         \<and> (\<forall>r<length chart. length (chart ! r) = nat W
              \<and> (\<exists>lbl. row_label_of (int r + 1) = Inr lbl
                    \<and> final_table sdf ! (length chart - 1 - r) = Text lbl # chart ! r))
         \<and> (\<forall>r j. Suc r < length chart \<and> j < nat W \<longrightarrow>
               chart ! r ! nat (compute_seating_pattern W ! j)
                 = NAME (sort_values df ! (r * nat W + j)))
         \<and> (\<forall>r. Suc r = length chart \<longrightarrow>
               0 < length df - nat W * r \<and> length df - nat W * r \<le> nat W
             \<and> (\<forall>j<length df - nat W * r.
                   chart ! r ! nat (compute_seating_pattern W ! j)
                     = NAME (sort_values df ! (r * nat W + j)))
             \<and> (\<forall>j. length df - nat W * r \<le> j \<and> j < nat W \<longrightarrow>
                   chart ! r ! nat (compute_seating_pattern W ! j) = Text []))))
    \<and> (109 * W < int (length df) \<longrightarrow> generate_seating_chart sort_values df W = Inl KeyError)"
proof (intro conjI impI)
  assume big: "109 * W < int (length df)"
  from assms(1) big assms(2) show "generate_seating_chart sort_values df W = Inl KeyError"
    by (rule generate_seating_chart_fails)
next
  assume small: "int (length df) \<le> 109 * W"
  let ?S = "sort_values df" and ?pat = "compute_seating_pattern W"
  define n where "n = nat (- ((- int (length df)) div W))"
  define chart where "chart = map (cells_at ?S W) [0..<n]"
  define asg where "asg = map (placement_at ?S W) [0..<length df]"
  define sdf where "sdf = \<lparr>columns = paihao # generate_column_labels W,
      final_table = rev (map (\<lambda>r. Text (the_row_label (int r + 1)) # cells_at ?S W r) [0..<n])\<rparr>"
  define expl where "expl = join [10] (map explanation_line asg)"
  from assms(2) have len: "length ?S = length df"
    by (rule length_sort_values)
  from rows_bounds(1) [OF assms(1) small] have n: "- ((- int (length df)) div W) = int n"
    by (simp add: n_def)
  have c1: "assign_seats sort_values df W = Inr (\<lceil>real (length df) / real_of_int W\<rceil>, chart, asg)"
    unfolding assign_seats_closed [OF assms(1) small assms(2)] ceil_div_real chart_def asg_def n_def ..
  have c2: "generate_seating_chart sort_values df W = Inr (sdf, expl)"
    unfolding generate_seating_chart_closed [OF assms(1) small assms(2)] sdf_def expl_def asg_def n_def ..
  have c3: "length chart = nat \<lceil>real (length df) / real_of_int W\<rceil>"
    by (simp add: chart_def ceil_div_real n)
  have c3': "length (final_table sdf) = length chart"
    by (simp add: chart_def sdf_def)
  have c4: "\<forall>r<length chart. length (chart ! r) = nat W
      \<and> (\<exists>lbl. row_label_of (int r + 1) = Inr lbl
            \<and> final_table sdf ! (length chart - 1 - r) = Text lbl # chart ! r)"
  proof (intro allI impI)
    fix r
    assume "r < length chart"
    then have r: "r < n" by (simp add: chart_def)
    with rows_bounds(2) [OF assms(1) small] have "int r + 1 \<le> 109"
      by (simp add: n)
    then have "row_label_of (int r + 1) = Inr (the_row_label (int r + 1))"
      by (intro row_label_of_returns) simp_all
    moreover from r have "n - Suc (n - Suc r) = r" by arith
    with r have "final_table sdf ! (length chart - 1 - r)
        = Text (the_row_label (int r + 1)) # chart ! r"
      by (simp add: chart_def sdf_def rev_nth)
    moreover from r have "length (chart ! r) = nat W"
      by (simp add: chart_def)
    ultimately show "length (chart ! r) = nat W
      \<and> (\<exists>lbl. row_label_of (int r + 1) = Inr lbl
            \<and> final_table sdf ! (length chart - 1 - r) = Text lbl # chart ! r)"
      by blast
  qed
  have cell: "chart ! r ! nat (?pat ! j)
      = (if r * nat W + j < length df then NAME (?S ! (r * nat W + j)) else Text [])"
    if "r < n" "j < nat W" for r j
    using that assms(1) nth_cells_at [of W j ?S r] by (simp add: chart_def len)
  have c5: "\<forall>r j. Suc r < length chart \<and> j < nat W \<longrightarrow>
      chart ! r ! nat (?pat ! j) = NAME (?S ! (r * nat W + j))"
  proof (intro allI impI)
    fix r j
    assume "Suc r < length chart \<and> j < nat W"
    then have r: "Suc r < n" and j: "j < nat W"
      by (simp_all add: chart_def)
    then obtain m where m: "Suc m = n" "Suc r \<le> m"
      by (cases n) simp_all
    from last_row_bounds(1) [OF assms(1) small, of m] m(1) have "m * nat W < length df"
      by (simp add: n_def)
    moreover from m(2) have "Suc r * nat W \<le> m * nat W"
      by (rule mult_le_mono1)
    ultimately have "r * nat W + j < length df"
      using j by simp
    with r j show "chart ! r ! nat (?pat ! j) = NAME (?S ! (r * nat W + j))"
      by (simp add: cell)
  qed
  have c6: "\<forall>r. Suc r = length chart \<longrightarrow>
               0 < length df - nat W * r \<and> length df - nat W * r \<le> nat W
             \<and> (\<forall>j<length df - nat W * r.
                   chart ! r ! nat (?pat ! j) = NAME (?S ! (r * nat W + j)))
             \<and> (\<forall>j. length df - nat W * r \<le> j \<and> j < nat W \<longrightarrow>
                   chart ! r ! nat (?pat ! j) = Text [])"
  proof (intro allI impI)
    fix r
    assume "Suc r = length chart"
    then have r: "Suc r = n" by (simp add: chart_def)
    then have rn: "r < n" by simp
    from r have b: "r * nat W < length df" "length df \<le> r * nat W + nat W"
      using last_row_bounds [OF assms(1) small, of r] by (simp_all add: n_def)
    then have cnt: "0 < length df - nat W * r" "length df - nat W * r \<le> nat W"
      by (simp_all add: mult.commute)
    have full: "chart ! r ! nat (?pat ! j) = NAME (?S ! (r * nat W + j))"
      if "j < length df - nat W * r" for j
    proof -
      from that cnt have "j < nat W" "r * nat W + j < length df"
        by (simp_all add: mult.commute less_diff_conv)
      with rn show ?thesis by (simp add: cell)
    qed
    have blank: "chart ! r ! nat (?pat ! j) = Text []"
      if "length df - nat W * r \<le> j \<and> j < nat W" for j
    proof -
      from that have "j < nat W" "\<not> r * nat W + j < length df"
        by (simp_all add: mult.commute) arith
      with rn show ?thesis by (simp add: cell)
    qed
    from cnt full blank
    show "0 < length df - nat W * r \<and> length df - nat W * r \<le> nat W
             \<and> (\<forall>j<length df - nat W * r.
                   chart ! r ! nat (?pat ! j) = NAME (?S ! (r * nat W + j)))
             \<and> (\<forall>j. length df - nat W * r \<le> j \<and> j < nat W \<longrightarrow>
                   chart ! r ! nat (?pat ! j) = Text [])"
      by blast
  qed
  show "\<exists>chart asg sdf text.
           assign_seats sort_values df W = Inr (\<lceil>real (length df) / real_of_int W\<rceil>, chart, asg)
         \<and> generate_seating_chart sort_values df W = Inr (sdf, text)
         \<and> length chart = nat \<lceil>real (length df) / real_of_int W\<rceil>
         \<and> length (final_table sdf) = length chart
         \<and> (\<forall>r<length chart. length (chart ! r) = nat W
              \<and> (\<exists>lbl. row_label_of (int r + 1) = Inr lbl
                    \<and> final_table sdf ! (length chart - 1 - r) = Text lbl # chart ! r))
         \<and> (\<forall>r j. Suc r < length chart \<and> j < nat W \<longrightarrow>
               chart ! r ! nat (?pat ! j) = NAME (?S ! (r * nat W + j)))
         \<and> (\<forall>r. Suc r = length chart \<longrightarrow>
               0 < length df - nat W * r \<and> length df - nat W * r \<le> nat W
             \<and> (\<forall>j<length df - nat W * r.
                   chart ! r ! nat (?pat ! j) = NAME (?S ! (r * nat W + j)))
             \<and> (\<forall>j. length df - nat W * r \<le> j \<and> j < nat W \<longrightarrow>
                   chart ! r ! nat (?pat ! j) = Text []))"
    using c1 c2 c3 c3' c4 c5 c6 by (intro exI conjI)
qed

theorem chart_rows_and_fill_witness:
  "\<exists>chart asg sdf text.
     assign_seats (sort_key PERSONID) [attendee_no 3, attendee_no 1, attendee_no 2] 2
       = Inr (2, chart, asg)
     \<and> generate_seating_chart (sort_key PERSONID) [attendee_no 3, attendee_no 1, attendee_no 2] 2
       = Inr (sdf, text)
     \<and> length chart = 2 \<and> length (final_table sdf) = 2"
proof -
  let ?df = "[attendee_no 3, attendee_no 1, attendee_no 2]"
  have one: "(1::int) \<le> 2" and small: "int (length ?df) \<le> 109 * 2"
    by simp_all
  have rows: "\<lceil>real (length ?df) / real_of_int 2\<rceil> = 2"
    by simp
  from chart_rows_and_fill [OF one sorts_by_PERSONID_sort_key, of ?df] small
  obtain chart asg sdf expl
    where "assign_seats (sort_key PERSONID) ?df 2
        = Inr (\<lceil>real (length ?df) / real_of_int 2\<rceil>, chart, asg)"
      and "generate_seating_chart (sort_key PERSONID) ?df 2 = Inr (sdf, expl)"
      and "length chart = nat \<lceil>real (length ?df) / real_of_int 2\<rceil>"
      and "length (final_table sdf) = length chart"
    by blast
  then show ?thesis
    unfolding rows by simp
qed

text \<open>
  With one seat in a row and 110 attendees the call returns no chart: it fails.
\<close>

theorem chart_110_rows_counterexample:
  "length (map attendee_no [1..110]) = 110
   \<and> generate_seating_chart (sort_key PERSONID) (map attendee_no [1..110]) 1 = Inl KeyError"
  by (simp add: generate_seating_chart_fails sorts_by_PERSONID_sort_key)

text \<open>
  Claim C7, as the code has it. Let \<open>W \<ge> 1\<close>, let \<open>sort_values\<close> be a sorting function of
  the kind described and let the identifiers of the table be distinct. When
  \<open>N \<le> 109 * W\<close> the call returns, and the explanation is made of the lines of the entries
  of \<open>assignments\<close> sorted by \<^verbatim>\<open>PERSONID\<close>: the text, with a newline after it, is these
  lines in this order, each with a newline after it. The identifiers of these entries are
  strictly ascending, they are the identifiers of the table in ascending order, and there
  is one line per attendee. When \<open>N > 109 * W\<close> the call fails with \<^verbatim>\<open>KeyError\<close> and
  gives no line.
\<close>

theorem explanation_sorted_by_id:
  assumes "1 \<le> W" and "sorts_by_PERSONID sort_values" and "distinct (map PERSONID df)"
  shows "(int (length df) \<le> 109 * W \<longrightarrow>
          (\<exists>sdf text n chart asg.
              generate_seating_chart sort_values df W = Inr (sdf, text)
            \<and> assign_seats sort_values df W = Inr (n, chart, asg)
            \<and> text = join [10] (map explanation_line (sort_key PERSONID asg))
            \<and> (df \<noteq> [] \<longrightarrow>
                  text @ [10]
                    = concat (map (\<lambda>a. explanation_line a @ [10]) (sort_key PERSONID asg)))
            \<and> (df = [] \<longrightarrow> text = [])
            \<and> sorted_wrt (<) (map PERSONID (sort_key PERSONID asg))
            \<and> map PERSONID (sort_key PERSONID asg) = sort (map PERSONID df)
            \<and> length (map explanation_line (sort_key PERSONID asg)) = length df
            \<and> mset (map PERSONID (sort_key PERSONID asg)) = mset (map PERSONID df)))
    \<and> (109 * W < int (length df) \<longrightarrow>
          generate_seating_chart sort_values df W = Inl KeyError)"
proof (intro conjI impI)
  assume big: "109 * W < int (length df)"
  from assms(1) big assms(2) show "generate_seating_chart sort_values df W = Inl KeyError"
    by (rule generate_seating_chart_fails)
next
  assume small: "int (length df) \<le> 109 * W"
  let ?S = "sort_values df"
  define asg where "asg = map (placement_at ?S W) [0..<length df]"
  define expl where "expl = join [10] (map explanation_line asg)"
  from assms(2) have len: "length ?S = length df"
    by (rule length_sort_values)
  have sorted_asg: "sort_key PERSONID asg = asg"
    unfolding asg_def using assms(2) by (rule sort_placements)
  have ids: "map PERSONID asg = map PERSONID ?S"
    using map_PERSONID_placement [of ?S W] by (simp add: asg_def len)
  have a: "assign_seats sort_values df W = Inr (- ((- int (length df)) div W),
      map (cells_at ?S W) [0..<nat (- ((- int (length df)) div W))], asg)"
    unfolding asg_def using assms(1) small assms(2) by (rule assign_seats_closed)
  have g: "generate_seating_chart sort_values df W
    = Inr (\<lparr>columns = paihao # generate_column_labels W,
             final_table = rev (map (\<lambda>r. Text (the_row_label (int r + 1)) # cells_at ?S W r)
                                  [0..<nat (- ((- int (length df)) div W))])\<rparr>, expl)"
    unfolding expl_def asg_def using assms(1) small assms(2)
    by (rule generate_seating_chart_closed)
  have l: "length asg = length df"
    by (simp add: asg_def)
  have t1: "df \<noteq> [] \<longrightarrow> expl @ [10] = concat (map (\<lambda>a. explanation_line a @ [10]) asg)"
  proof
    assume "df \<noteq> []"
    with l have "map explanation_line asg \<noteq> []" by auto
    then have "join [10] (map explanation_line asg) @ [10]
        = concat (map (\<lambda>l. l @ [10]) (map explanation_line asg))"
      by (rule join_terminated)
    then show "expl @ [10] = concat (map (\<lambda>a. explanation_line a @ [10]) asg)"
      by (simp add: expl_def o_def)
  qed
  have t0: "df = [] \<longrightarrow> expl = []"
    by (simp add: expl_def asg_def)
  have srt: "map PERSONID asg = sort (map PERSONID df)"
    using assms(2) by (simp add: ids ids_sort_values)
  have m: "mset (map PERSONID asg) = mset (map PERSONID df)"
    by (simp add: srt)
  with assms(3) have "distinct (map PERSONID asg)"
    using mset_eq_imp_distinct_iff by blast
  moreover have "sorted (map PERSONID asg)"
    by (simp add: srt)
  ultimately have s: "sorted_wrt (<) (map PERSONID asg)"
    by (simp add: strict_sorted_iff)
  have "generate_seating_chart sort_values df W
        = Inr (\<lparr>columns = paihao # generate_column_labels W,
             final_table = rev (map (\<lambda>r. Text (the_row_label (int r + 1)) # cells_at ?S W r)
                                  [0..<nat (- ((- int (length df)) div W))])\<rparr>, expl)
      \<and> assign_seats sort_values df W = Inr (- ((- int (length df)) div W),
            map (cells_at ?S W) [0..<nat (- ((- int (length df)) div W))], asg)
      \<and> expl = join [10] (map explanation_line (sort_key PERSONID asg))
      \<and> (df \<noteq> [] \<longrightarrow>
            expl @ [10]
              = concat (map (\<lambda>a. explanation_line a @ [10]) (sort_key PERSONID asg)))
      \<and> (df = [] \<longrightarrow> expl = [])
      \<and> sorted_wrt (<) (map PERSONID (sort_key PERSONID asg))
      \<and> map PERSONID (sort_key PERSONID asg) = sort (map PERSONID df)
      \<and> length (map explanation_line (sort_key PERSONID asg)) = length df
      \<and> mset (map PERSONID (sort_key PERSONID asg)) = mset (map PERSONID df)"
    unfolding sorted_asg using g a t1 t0 s srt l m by (simp add: expl_def)
  then show "\<exists>sdf text n chart asg.
              generate_seating_chart sort_values df W = Inr (sdf, text)
            \<and> assign_seats sort_values df W = Inr (n, chart, asg)
            \<and> text = join [10] (map explanation_line (sort_key PERSONID asg))
            \<and> (df \<noteq> [] \<longrightarrow>
                  text @ [10]
                    = concat (map (\<lambda>a. explanation_line a @ [10]) (sort_key PERSONID asg)))
            \<and> (df = [] \<longrightarrow> text = [])
            \<and> sorted_wrt (<) (map PERSONID (sort_key PERSONID asg))
            \<and> map PERSONID (sort_key PERSONID asg) = sort (map PERSONID df)
            \<and> length (map explanation_line (sort_key PERSONID asg)) = length df
            \<and> mset (map PERSONID (sort_key PERSONID asg)) = mset (map PERSONID df)"
    by blast
qed

theorem explanation_sorted_by_id_witness:
  "\<exists>sdf text n chart asg.
     generate_seating_chart (sort_key PERSONID) [attendee_no 3, attendee_no 1, attendee_no 2] 2
       = Inr (sdf, text)
     \<and> assign_seats (sort_key PERSONID) [attendee_no 3, attendee_no 1, attendee_no 2] 2
       = Inr (n, chart, asg)
     \<and> text @ [10] = concat (map (\<lambda>a. explanation_line a @ [10]) (sort_key PERSONID asg))
     \<and> sorted_wrt (<) (map PERSONID (sort_key PERSONID asg))
     \<and> map PERSONID (sort_key PERSONID asg) = [1, 2, 3]
     \<and> length (map explanation_line (sort_key PERSONID asg)) = 3"
proof -
  let ?df = "[attendee_no 3, attendee_no 1, attendee_no 2]"
  have one: "(1::int) \<le> 2" and small: "int (length ?df) \<le> 109 * 2"
    and ids: "distinct (map PERSONID ?df)" and ne: "?df \<noteq> []"
    and srt: "sort (map PERSONID ?df) = [1, 2, 3]" and len: "length ?df = 3"
    by (simp_all add: attendee_no_def)
  from explanation_sorted_by_id [OF one sorts_by_PERSONID_sort_key ids] small ne
  obtain sdf expl n chart asg
    where "generate_seating_chart (sort_key PERSONID) ?df 2 = Inr (sdf, expl)"
      and "assign_seats (sort_key PERSONID) ?df 2 = Inr (n, chart, asg)"
      and "expl @ [10] = concat (map (\<lambda>a. explanation_line a @ [10]) (sort_key PERSONID asg))"
      and "sorted_wrt (<) (map PERSONID (sort_key PERSONID asg))"
      and "map PERSONID (sort_key PERSONID asg) = sort (map PERSONID ?df)"
      and "length (map explanation_line (sort_key PERSONID asg)) = length ?df"
    by blast
  then show ?thesis
    unfolding srt len by (intro exI conjI) simp_all
qed

text \<open>
  With one seat in a row and 110 attendees with the distinct identifiers 1 to 110 the call
  fails, and no line is produced for any attendee.
\<close>

theorem explanation_110_counterexample:
  "distinct (map PERSONID (map attendee_no [1..110]))
   \<and> generate_seating_chart (sort_key PERSONID) (map attendee_no [1..110]) 1 = Inl KeyError"
proof -
  have "map PERSONID (map attendee_no [1..110]) = [1..110]"
    by (simp add: o_def attendee_no_def)
  then have "distinct (map PERSONID (map attendee_no [1..110]))"
    by (simp only: distinct_upto)
  moreover have "generate_seating_chart (sort_key PERSONID) (map attendee_no [1..110]) 1
      = Inl KeyError"
    by (rule generate_seating_chart_fails) (simp_all add: sorts_by_PERSONID_sort_key)
  ultimately show ?thesis by (rule conjI)
qed

text \<open>
  Claim C8. Let \<open>W \<ge> 1\<close>, let \<open>sort_values\<close> be a sorting function of the kind described
  and let the call return. The entries of \<open>assignments\<close> are the rows of the sorted table,
  in its order, which is the ascending order of the identifiers whatever the names are;
  each entry has the name that the table has for it, a missing or blank one too. The row
  and the seat of the \<open>j\<close>-th entry depend on \<open>j\<close> and \<open>W\<close> only: the label of the row
  \<open>j div W + 1\<close> and the label of the column at the position \<open>j mod W\<close> of the fill pattern.
  The reserved-seat text stands only in the line of the explanation, which shows it in
  place of a name that is missing or blank; a text that gets it is blank or reads nan
  when stripped and in lower case. With distinct identifiers the sorted table is the one
  ascending order of the table.
\<close>

theorem blank_name_same_rule:
  assumes "1 \<le> W" and "sorts_by_PERSONID sort_values"
    and "generate_seating_chart sort_values df W = Inr (sdf, expl)"
  shows "\<exists>n chart asg.
      assign_seats sort_values df W = Inr (n, chart, asg)
    \<and> map PERSONID asg = map PERSONID (sort_values df)
    \<and> map NAME asg = map NAME (sort_values df)
    \<and> map PERSONID asg = sort (map PERSONID df)
    \<and> (distinct (map PERSONID df) \<longrightarrow> sort_values df = sort_key PERSONID df)
    \<and> (\<forall>j<length asg.
          row_label_of (int (j div nat W) + 1) = Inr (ROW (asg ! j))
        \<and> list_get (generate_column_labels W) (compute_seating_pattern W ! (j mod nat W))
            = Inr (SEAT (asg ! j)))
    \<and> expl = join [10] (map explanation_line (sort_key PERSONID asg))
    \<and> (\<forall>a. explanation_line a
          = (if is_reserved (NAME a) then reserved_seat else py_str (NAME a))
              @ [32] @ zai @ ROW a @ di @ SEAT a @ zuowei)
    \<and> is_reserved Missing
    \<and> (\<forall>s. py_strip s = [] \<longrightarrow> is_reserved (Text s))
    \<and> (\<forall>s. is_reserved (Text s) \<longrightarrow> py_strip s = [] \<or> py_lower (py_strip s) = nan)"
proof -
  let ?S = "sort_values df"
  define asg where "asg = map (placement_at ?S W) [0..<length df]"
  from assms(2) have len: "length ?S = length df"
    by (rule length_sort_values)
  from assms have small: "int (length df) \<le> 109 * W"
    using generate_seating_chart_returns_iff [of W sort_values df] by blast
  have sorted_asg: "sort_key PERSONID asg = asg"
    unfolding asg_def using assms(2) by (rule sort_placements)
  have a: "assign_seats sort_values df W = Inr (- ((- int (length df)) div W),
      map (cells_at ?S W) [0..<nat (- ((- int (length df)) div W))], asg)"
    unfolding asg_def using assms(1) small assms(2) by (rule assign_seats_closed)
  have ids: "map PERSONID asg = map PERSONID ?S"
    using map_PERSONID_placement [of ?S W] by (simp add: asg_def len)
  have names: "map NAME asg = map NAME ?S"
    using map_NAME_placement [of ?S W] by (simp add: asg_def len)
  have srt: "map PERSONID asg = sort (map PERSONID df)"
    using assms(2) by (simp add: ids ids_sort_values)
  have uniq: "distinct (map PERSONID df) \<longrightarrow> ?S = sort_key PERSONID df"
    using assms(2) by (simp add: sort_values_unique)
  have labels: "\<forall>j<length asg.
          row_label_of (int (j div nat W) + 1) = Inr (ROW (asg ! j))
        \<and> list_get (generate_column_labels W) (compute_seating_pattern W ! (j mod nat W))
            = Inr (SEAT (asg ! j))"
    using nth_placement_labels [of W ?S] assms(1) small by (simp add: asg_def len)
  from assms(3) have "expl = join [10] (map explanation_line asg)"
    unfolding generate_seating_chart_closed [OF assms(1) small assms(2)] asg_def by simp
  then have t: "expl = join [10] (map explanation_line (sort_key PERSONID asg))"
    by (simp only: sorted_asg)
  have r: "is_reserved Missing" "\<forall>s. py_strip s = [] \<longrightarrow> is_reserved (Text s)"
    "\<forall>s. is_reserved (Text s) \<longrightarrow> py_strip s = [] \<or> py_lower (py_strip s) = nan"
    by (auto simp add: is_reserved_def)
  from a ids names srt uniq labels t r explanation_line_eq show ?thesis
    by blast
qed

theorem blank_name_same_rule_witness:
  "\<exists>n chart asg.
      assign_seats (sort_key PERSONID)
        [\<lparr>PERSONID = 3, NAME = Text [32]\<rparr>, \<lparr>PERSONID = 1, NAME = Missing\<rparr>,
         \<lparr>PERSONID = 2, NAME = Text [65]\<rparr>] 2 = Inr (n, chart, asg)
    \<and> map PERSONID asg = [1, 2, 3]
    \<and> map NAME asg = [Missing, Text [65], Text [32]]"
proof -
  let ?df = "[\<lparr>PERSONID = 3, NAME = Text [32]\<rparr>, \<lparr>PERSONID = 1, NAME = Missing\<rparr>,
              \<lparr>PERSONID = 2, NAME = Text [65]\<rparr>]"
  have one: "(1::int) \<le> 2" and small: "int (length ?df) \<le> 109 * 2"
    by simp_all
  obtain sdf expl
    where ret: "generate_seating_chart (sort_key PERSONID) ?df 2 = Inr (sdf, expl)"
    using generate_seating_chart_closed [OF one small sorts_by_PERSONID_sort_key] by blast
  from blank_name_same_rule [OF one sorts_by_PERSONID_sort_key ret] obtain n chart asg
    where "assign_seats (sort_key PERSONID) ?df 2 = Inr (n, chart, asg)"
      and "map PERSONID asg = map PERSONID (sort_key PERSONID ?df)"
      and "map NAME asg = map NAME (sort_key PERSONID ?df)"
    by blast
  then show ?thesis
    by simp
qed

end
